theory Spec2Isabelle
  imports Main "HOL-Library.Word"
begin

unbundle bit_operations_syntax

section \<open>Bytes, strings and errors\<close>

text \<open>
  A \<^verbatim>\<open>Uint8Array\<close> or \<^verbatim>\<open>Buffer\<close> is a list of 8-bit words; a JavaScript string is a
  list of UTF-16 code units, so that \<^verbatim>\<open>charCodeAt\<close> is \<open>unat\<close> of an element and
  \<^verbatim>\<open>length\<close> counts code units.
\<close>

type_synonym byte = "8 word"
type_synonym bytes = "byte list"
type_synonym jsstring = "16 word list"

text \<open>Every \<^verbatim>\<open>throw\<close> of the security module and of the primitives it calls.\<close>

datatype error =
    NoPasswordDefined
  | InvalidPasswordCharacters
  | TypeError
  | URIError
  | RangeError
  | SaslprepError
  | AesInvalidKeySize
  | AesInvalidIv
  | AesUnalignedData

text \<open>\<^verbatim>\<open>concatBytes\<close> of \<^verbatim>\<open>@noble/hashes/utils\<close> is list concatenation.\<close>

definition concatBytes :: "bytes list \<Rightarrow> bytes" where
  "concatBytes = concat"

text \<open>Splitting a buffer into consecutive blocks of \<open>n\<close> elements (a trailing partial
  block is dropped; the callers only pass whole multiples).\<close>

definition chunks :: "nat \<Rightarrow> 'a list \<Rightarrow> 'a list list" where
  "chunks n xs = map (\<lambda>i. take n (drop (i * n) xs)) [0..<length xs div n]"

section \<open>RC4 (\<^verbatim>\<open>lib/crypto/rc4.js\<close>)\<close>

text \<open>
  The key-scheduling loop. With an empty key, \<^verbatim>\<open>key[i % key.length]\<close> is
  \<^verbatim>\<open>undefined\<close>, the sum is \<^verbatim>\<open>NaN\<close>, and \<^verbatim>\<open>NaN & 0xff\<close> is 0.
\<close>

definition rc4_ksa_step :: "bytes \<Rightarrow> bytes \<times> byte \<Rightarrow> nat \<Rightarrow> bytes \<times> byte" where
  "rc4_ksa_step key sj i =
     (let s = fst sj; j = snd sj;
          j' = (if key = [] then 0 else j + s ! i + key ! (i mod length key))
      in (s[i := s ! unat j', unat j' := s ! i], j'))"

definition rc4_ksa :: "bytes \<Rightarrow> bytes" where
  "rc4_ksa key = fst (foldl (rc4_ksa_step key) (map of_nat [0..<256], 0) [0..<256])"

fun rc4_prga :: "bytes \<Rightarrow> byte \<Rightarrow> byte \<Rightarrow> bytes \<Rightarrow> bytes" where
  "rc4_prga s i j [] = []"
| "rc4_prga s i j (d # ds) =
     (let i' = i + 1;
          j' = j + s ! unat i';
          s' = s[unat i' := s ! unat j', unat j' := s ! unat i']
      in (d XOR s' ! unat (s' ! unat i' + s' ! unat j')) # rc4_prga s' i' j' ds)"

definition rc4 :: "bytes \<Rightarrow> bytes \<Rightarrow> bytes" where
  "rc4 data key = rc4_prga (rc4_ksa key) 0 0 data"

section \<open>MD5 (\<^verbatim>\<open>lib/crypto/md5.js\<close>, wrapping the \<^verbatim>\<open>js-md5\<close> package)\<close>

text \<open>
  \<^verbatim>\<open>md5Hash\<close> returns the 16 bytes of \<^verbatim>\<open>md5.arrayBuffer(data)\<close>. The package is not
  part of the repository; the digest is the function of RFC 1321, written out here.
\<close>

definition le32 :: "32 word \<Rightarrow> bytes" where
  "le32 w = [ucast w, ucast (drop_bit 8 w), ucast (drop_bit 16 w), ucast (drop_bit 24 w)]"

definition le64 :: "64 word \<Rightarrow> bytes" where
  "le64 w = map (\<lambda>i. ucast (drop_bit (8 * i) w)) [0..<8]"

definition le_word32 :: "bytes \<Rightarrow> 32 word" where
  "le_word32 bs = ucast (bs ! 0) OR push_bit 8 (ucast (bs ! 1))
       OR push_bit 16 (ucast (bs ! 2)) OR push_bit 24 (ucast (bs ! 3))"

definition rotl32 :: "32 word \<Rightarrow> nat \<Rightarrow> 32 word" where
  "rotl32 x n = push_bit n x OR drop_bit (32 - n) x"

definition md5_K :: "32 word list" where
  "md5_K = [
    0xd76aa478, 0xe8c7b756, 0x242070db, 0xc1bdceee, 0xf57c0faf, 0x4787c62a, 0xa8304613, 0xfd469501,
    0x698098d8, 0x8b44f7af, 0xffff5bb1, 0x895cd7be, 0x6b901122, 0xfd987193, 0xa679438e, 0x49b40821,
    0xf61e2562, 0xc040b340, 0x265e5a51, 0xe9b6c7aa, 0xd62f105d, 0x02441453, 0xd8a1e681, 0xe7d3fbc8,
    0x21e1cde6, 0xc33707d6, 0xf4d50d87, 0x455a14ed, 0xa9e3e905, 0xfcefa3f8, 0x676f02d9, 0x8d2a4c8a,
    0xfffa3942, 0x8771f681, 0x6d9d6122, 0xfde5380c, 0xa4beea44, 0x4bdecfa9, 0xf6bb4b60, 0xbebfbc70,
    0x289b7ec6, 0xeaa127fa, 0xd4ef3085, 0x04881d05, 0xd9d4d039, 0xe6db99e5, 0x1fa27cf8, 0xc4ac5665,
    0xf4292244, 0x432aff97, 0xab9423a7, 0xfc93a039, 0x655b59c3, 0x8f0ccc92, 0xffeff47d, 0x85845dd1,
    0x6fa87e4f, 0xfe2ce6e0, 0xa3014314, 0x4e0811a1, 0xf7537e82, 0xbd3af235, 0x2ad7d2bb, 0xeb86d391]"

definition md5_S :: "nat list" where
  "md5_S = [
    7, 12, 17, 22, 7, 12, 17, 22, 7, 12, 17, 22, 7, 12, 17, 22,
    5, 9, 14, 20, 5, 9, 14, 20, 5, 9, 14, 20, 5, 9, 14, 20,
    4, 11, 16, 23, 4, 11, 16, 23, 4, 11, 16, 23, 4, 11, 16, 23,
    6, 10, 15, 21, 6, 10, 15, 21, 6, 10, 15, 21, 6, 10, 15, 21]"

type_synonym md5_state = "32 word \<times> 32 word \<times> 32 word \<times> 32 word"

definition md5_step :: "32 word list \<Rightarrow> md5_state \<Rightarrow> nat \<Rightarrow> md5_state" where
  "md5_step m st i =
     (case st of (a, b, c, d) \<Rightarrow>
        let f = (if i < 16 then (b AND c) OR (NOT b AND d)
                 else if i < 32 then (d AND b) OR (NOT d AND c)
                 else if i < 48 then b XOR c XOR d
                 else c XOR (b OR NOT d));
            g = (if i < 16 then i
                 else if i < 32 then (5 * i + 1) mod 16
                 else if i < 48 then (3 * i + 5) mod 16
                 else (7 * i) mod 16)
        in (d, b + rotl32 (f + a + md5_K ! i + m ! g) (md5_S ! i), b, c))"

definition md5_block :: "md5_state \<Rightarrow> bytes \<Rightarrow> md5_state" where
  "md5_block st blk =
     (case st of (a0, b0, c0, d0) \<Rightarrow>
        case foldl (md5_step (map le_word32 (chunks 4 blk))) st [0..<64] of
          (a, b, c, d) \<Rightarrow> (a0 + a, b0 + b, c0 + c, d0 + d))"

definition md5_pad :: "bytes \<Rightarrow> bytes" where
  "md5_pad msg =
     msg @ [0x80] @ replicate ((119 - length msg mod 64) mod 64) 0
       @ le64 (of_nat (8 * length msg))"

definition md5 :: "bytes \<Rightarrow> bytes" where
  "md5 msg =
     (case foldl md5_block (0x67452301, 0xefcdab89, 0x98badcfe, 0x10325476)
             (chunks 64 (md5_pad msg)) of
        (a, b, c, d) \<Rightarrow> le32 a @ le32 b @ le32 c @ le32 d)"

definition md5Hash :: "bytes \<Rightarrow> bytes" where
  "md5Hash data = md5 data"

section \<open>SHA-256 (\<^verbatim>\<open>lib/crypto/sha256.js\<close>, wrapping \<^verbatim>\<open>@noble/hashes\<close>)\<close>

text \<open>
  \<^verbatim>\<open>sha256Hash\<close> returns the 32 bytes of \<^verbatim>\<open>sha256(data)\<close>; the digest is the function of
  FIPS 180-4, written out here. The round constants are the first 32 bits of the
  fractional parts of the cube roots of the first 64 primes, in decimal.
\<close>

definition be32 :: "32 word \<Rightarrow> bytes" where
  "be32 w = [ucast (drop_bit 24 w), ucast (drop_bit 16 w), ucast (drop_bit 8 w), ucast w]"

definition be64 :: "64 word \<Rightarrow> bytes" where
  "be64 w = map (\<lambda>i. ucast (drop_bit (8 * (7 - i)) w)) [0..<8]"

definition be_word32 :: "bytes \<Rightarrow> 32 word" where
  "be_word32 bs = push_bit 24 (ucast (bs ! 0)) OR push_bit 16 (ucast (bs ! 1))
       OR push_bit 8 (ucast (bs ! 2)) OR ucast (bs ! 3)"

definition rotr32 :: "32 word \<Rightarrow> nat \<Rightarrow> 32 word" where
  "rotr32 x n = drop_bit n x OR push_bit (32 - n) x"

definition sha256_K :: "32 word list" where
  "sha256_K = [
    1116352408, 1899447441, 3049323471, 3921009573, 961987163, 1508970993,
    2453635748, 2870763221, 3624381080, 310598401, 607225278, 1426881987,
    1925078388, 2162078206, 2614888103, 3248222580, 3835390401, 4022224774,
    264347078, 604807628, 770255983, 1249150122, 1555081692, 1996064986,
    2554220882, 2821834349, 2952996808, 3210313671, 3336571891, 3584528711,
    113926993, 338241895, 666307205, 773529912, 1294757372, 1396182291,
    1695183700, 1986661051, 2177026350, 2456956037, 2730485921, 2820302411,
    3259730800, 3345764771, 3516065817, 3600352804, 4094571909, 275423344,
    430227734, 506948616, 659060556, 883997877, 958139571, 1322822218,
    1537002063, 1747873779, 1955562222, 2024104815, 2227730452, 2361852424,
    2428436474, 2756734187, 3204031479, 3329325298]"

definition sha256_schedule_step :: "32 word list \<Rightarrow> nat \<Rightarrow> 32 word list" where
  "sha256_schedule_step w i =
     (let x = w ! (i - 15); y = w ! (i - 2);
          s0 = rotr32 x 7 XOR rotr32 x 18 XOR drop_bit 3 x;
          s1 = rotr32 y 17 XOR rotr32 y 19 XOR drop_bit 10 y
      in w @ [s1 + w ! (i - 7) + s0 + w ! (i - 16)])"

definition sha256_schedule :: "bytes \<Rightarrow> 32 word list" where
  "sha256_schedule blk = foldl sha256_schedule_step (map be_word32 (chunks 4 blk)) [16..<64]"

type_synonym sha256_state =
  "32 word \<times> 32 word \<times> 32 word \<times> 32 word \<times> 32 word \<times> 32 word \<times> 32 word \<times> 32 word"

definition sha256_round :: "32 word list \<Rightarrow> sha256_state \<Rightarrow> nat \<Rightarrow> sha256_state" where
  "sha256_round w st i =
     (case st of (a, b, c, d, e, f, g, h) \<Rightarrow>
        let S1 = rotr32 e 6 XOR rotr32 e 11 XOR rotr32 e 25;
            ch = (e AND f) XOR (NOT e AND g);
            t1 = h + S1 + ch + sha256_K ! i + w ! i;
            S0 = rotr32 a 2 XOR rotr32 a 13 XOR rotr32 a 22;
            maj = (a AND b) XOR (a AND c) XOR (b AND c);
            t2 = S0 + maj
        in (t1 + t2, a, b, c, d + t1, e, f, g))"

definition sha256_block :: "sha256_state \<Rightarrow> bytes \<Rightarrow> sha256_state" where
  "sha256_block st blk =
     (case st of (a0, b0, c0, d0, e0, f0, g0, h0) \<Rightarrow>
        case foldl (sha256_round (sha256_schedule blk)) st [0..<64] of
          (a, b, c, d, e, f, g, h) \<Rightarrow>
            (a0 + a, b0 + b, c0 + c, d0 + d, e0 + e, f0 + f, g0 + g, h0 + h))"

definition sha256_pad :: "bytes \<Rightarrow> bytes" where
  "sha256_pad msg =
     msg @ [0x80] @ replicate ((119 - length msg mod 64) mod 64) 0
       @ be64 (of_nat (8 * length msg))"

definition sha256 :: "bytes \<Rightarrow> bytes" where
  "sha256 msg =
     (case foldl sha256_block
             (0x6a09e667, 0xbb67ae85, 0x3c6ef372, 0xa54ff53a,
              0x510e527f, 0x9b05688c, 0x1f83d9ab, 0x5be0cd19)
             (chunks 64 (sha256_pad msg)) of
        (a, b, c, d, e, f, g, h) \<Rightarrow>
          be32 a @ be32 b @ be32 c @ be32 d @ be32 e @ be32 f @ be32 g @ be32 h)"

definition sha256Hash :: "bytes \<Rightarrow> bytes" where
  "sha256Hash data = sha256 data"

section \<open>AES (\<^verbatim>\<open>lib/crypto/aes.js\<close>, wrapping \<^verbatim>\<open>@noble/ciphers/aes\<close>)\<close>

text \<open>
  The block cipher of FIPS 197 for 128-, 192- and 256-bit keys, on a state of 16 bytes in
  column order, and the CBC and ECB modes with and without PKCS#7 padding. The package
  throws on a key that is not 16, 24 or 32 bytes long, on an IV that is not 16 bytes long
  and, with padding disabled, on data that is not a whole number of blocks.
\<close>

definition aes_sbox :: "bytes" where
  "aes_sbox = [
    0x63, 0x7c, 0x77, 0x7b, 0xf2, 0x6b, 0x6f, 0xc5, 0x30, 0x01, 0x67, 0x2b, 0xfe, 0xd7, 0xab, 0x76,
    0xca, 0x82, 0xc9, 0x7d, 0xfa, 0x59, 0x47, 0xf0, 0xad, 0xd4, 0xa2, 0xaf, 0x9c, 0xa4, 0x72, 0xc0,
    0xb7, 0xfd, 0x93, 0x26, 0x36, 0x3f, 0xf7, 0xcc, 0x34, 0xa5, 0xe5, 0xf1, 0x71, 0xd8, 0x31, 0x15,
    0x04, 0xc7, 0x23, 0xc3, 0x18, 0x96, 0x05, 0x9a, 0x07, 0x12, 0x80, 0xe2, 0xeb, 0x27, 0xb2, 0x75,
    0x09, 0x83, 0x2c, 0x1a, 0x1b, 0x6e, 0x5a, 0xa0, 0x52, 0x3b, 0xd6, 0xb3, 0x29, 0xe3, 0x2f, 0x84,
    0x53, 0xd1, 0x00, 0xed, 0x20, 0xfc, 0xb1, 0x5b, 0x6a, 0xcb, 0xbe, 0x39, 0x4a, 0x4c, 0x58, 0xcf,
    0xd0, 0xef, 0xaa, 0xfb, 0x43, 0x4d, 0x33, 0x85, 0x45, 0xf9, 0x02, 0x7f, 0x50, 0x3c, 0x9f, 0xa8,
    0x51, 0xa3, 0x40, 0x8f, 0x92, 0x9d, 0x38, 0xf5, 0xbc, 0xb6, 0xda, 0x21, 0x10, 0xff, 0xf3, 0xd2,
    0xcd, 0x0c, 0x13, 0xec, 0x5f, 0x97, 0x44, 0x17, 0xc4, 0xa7, 0x7e, 0x3d, 0x64, 0x5d, 0x19, 0x73,
    0x60, 0x81, 0x4f, 0xdc, 0x22, 0x2a, 0x90, 0x88, 0x46, 0xee, 0xb8, 0x14, 0xde, 0x5e, 0x0b, 0xdb,
    0xe0, 0x32, 0x3a, 0x0a, 0x49, 0x06, 0x24, 0x5c, 0xc2, 0xd3, 0xac, 0x62, 0x91, 0x95, 0xe4, 0x79,
    0xe7, 0xc8, 0x37, 0x6d, 0x8d, 0xd5, 0x4e, 0xa9, 0x6c, 0x56, 0xf4, 0xea, 0x65, 0x7a, 0xae, 0x08,
    0xba, 0x78, 0x25, 0x2e, 0x1c, 0xa6, 0xb4, 0xc6, 0xe8, 0xdd, 0x74, 0x1f, 0x4b, 0xbd, 0x8b, 0x8a,
    0x70, 0x3e, 0xb5, 0x66, 0x48, 0x03, 0xf6, 0x0e, 0x61, 0x35, 0x57, 0xb9, 0x86, 0xc1, 0x1d, 0x9e,
    0xe1, 0xf8, 0x98, 0x11, 0x69, 0xd9, 0x8e, 0x94, 0x9b, 0x1e, 0x87, 0xe9, 0xce, 0x55, 0x28, 0xdf,
    0x8c, 0xa1, 0x89, 0x0d, 0xbf, 0xe6, 0x42, 0x68, 0x41, 0x99, 0x2d, 0x0f, 0xb0, 0x54, 0xbb, 0x16]"

definition aes_rcon :: "bytes" where
  "aes_rcon = [0x01, 0x02, 0x04, 0x08, 0x10, 0x20, 0x40, 0x80, 0x1b, 0x36]"

definition aes_sub :: "byte \<Rightarrow> byte" where
  "aes_sub b = aes_sbox ! unat b"

definition xor_bytes :: "bytes \<Rightarrow> bytes \<Rightarrow> bytes" where
  "xor_bytes a b = map (\<lambda>i. a ! i XOR b ! i) [0..<length a]"

definition aes_expand_step :: "nat \<Rightarrow> bytes list \<Rightarrow> nat \<Rightarrow> bytes list" where
  "aes_expand_step nk w i =
     (let temp = w ! (i - 1);
          temp' = (if i mod nk = 0
                   then xor_bytes (map aes_sub (rotate1 temp)) [aes_rcon ! (i div nk - 1), 0, 0, 0]
                   else if 6 < nk \<and> i mod nk = 4 then map aes_sub temp
                   else temp)
      in w @ [xor_bytes (w ! (i - nk)) temp'])"

definition aes_expand_key :: "bytes \<Rightarrow> bytes list" where
  "aes_expand_key key =
     (let nk = length key div 4
      in foldl (aes_expand_step nk) (chunks 4 key) [nk..<4 * (nk + 7)])"

definition aes_round_key :: "bytes list \<Rightarrow> nat \<Rightarrow> bytes" where
  "aes_round_key w r = concat (take 4 (drop (4 * r) w))"

definition add_round_key :: "bytes \<Rightarrow> bytes \<Rightarrow> bytes" where
  "add_round_key st rk = map (\<lambda>i. st ! i XOR rk ! i) [0..<16]"

definition shift_rows :: "bytes \<Rightarrow> bytes" where
  "shift_rows st = map (\<lambda>i. st ! ((i + 4 * (i mod 4)) mod 16)) [0..<16]"

definition xtime :: "byte \<Rightarrow> byte" where
  "xtime b = push_bit 1 b XOR (if bit b 7 then 0x1b else 0)"

definition mix_column :: "bytes \<Rightarrow> bytes" where
  "mix_column c =
     (let a0 = c ! 0; a1 = c ! 1; a2 = c ! 2; a3 = c ! 3
      in [xtime a0 XOR (xtime a1 XOR a1) XOR a2 XOR a3,
          a0 XOR xtime a1 XOR (xtime a2 XOR a2) XOR a3,
          a0 XOR a1 XOR xtime a2 XOR (xtime a3 XOR a3),
          (xtime a0 XOR a0) XOR a1 XOR a2 XOR xtime a3])"

definition mix_columns :: "bytes \<Rightarrow> bytes" where
  "mix_columns st = concat (map mix_column (chunks 4 st))"

definition aes_encrypt_block :: "bytes list \<Rightarrow> nat \<Rightarrow> bytes \<Rightarrow> bytes" where
  "aes_encrypt_block w nr blk =
     (let st0 = add_round_key blk (aes_round_key w 0);
          st = foldl (\<lambda>s r. add_round_key (mix_columns (shift_rows (map aes_sub s)))
                               (aes_round_key w r)) st0 [1..<nr]
      in add_round_key (shift_rows (map aes_sub st)) (aes_round_key w nr))"

definition aes_block :: "bytes \<Rightarrow> bytes \<Rightarrow> bytes" where
  "aes_block key blk = aes_encrypt_block (aes_expand_key key) (length key div 4 + 6) blk"

definition pkcs7_pad :: "bytes \<Rightarrow> bytes" where
  "pkcs7_pad data =
     (let k = 16 - length data mod 16 in data @ replicate k (of_nat k))"

fun cbc_blocks :: "bytes \<Rightarrow> bytes \<Rightarrow> bytes list \<Rightarrow> bytes" where
  "cbc_blocks key prev [] = []"
| "cbc_blocks key prev (b # bs) =
     (let c = aes_block key (xor_bytes prev b) in c @ cbc_blocks key c bs)"

definition valid_key_size :: "bytes \<Rightarrow> bool" where
  "valid_key_size key = (length key = 16 \<or> length key = 24 \<or> length key = 32)"

definition aesCbcEncrypt :: "bytes \<Rightarrow> bytes \<Rightarrow> bytes \<Rightarrow> bool \<Rightarrow> error + bytes" where
  "aesCbcEncrypt data key iv padding =
     (if \<not> valid_key_size key then Inl AesInvalidKeySize
      else if length iv \<noteq> 16 then Inl AesInvalidIv
      else if padding then Inr (cbc_blocks key iv (chunks 16 (pkcs7_pad data)))
      else if length data mod 16 \<noteq> 0 then Inl AesUnalignedData
      else Inr (cbc_blocks key iv (chunks 16 data)))"

definition aesEcbEncrypt :: "bytes \<Rightarrow> bytes \<Rightarrow> error + bytes" where
  "aesEcbEncrypt data key =
     (if \<not> valid_key_size key then Inl AesInvalidKeySize
      else if length data mod 16 \<noteq> 0 then Inl AesUnalignedData
      else Inr (concat (map (aes_block key) (chunks 16 data))))"

section \<open>Random bytes (\<^verbatim>\<open>lib/crypto/random.js\<close>)\<close>

text \<open>
  \<^verbatim>\<open>randomBytes(length)\<close> fills a fresh array from the platform's generator. The generator
  is the state: an unbounded tape of bytes, of which each call consumes the next
  \<open>length\<close>. Every function that can reach the generator takes the tape and returns what
  is left of it.
\<close>

type_synonym rng = "nat \<Rightarrow> byte"

definition randomBytes :: "nat \<Rightarrow> rng \<Rightarrow> bytes \<times> rng" where
  "randomBytes n r = (map r [0..<n], \<lambda>i. r (i + n))"

definition generateRandomWordArray :: "nat \<Rightarrow> rng \<Rightarrow> bytes \<times> rng" where
  "generateRandomWordArray n r = randomBytes n r"

section \<open>Strings and UTF-8\<close>

definition js :: "string \<Rightarrow> jsstring" where
  "js s = map (\<lambda>c. of_nat (of_char c)) s"

text \<open>The UTF-8 bytes of one code point, as both encoders below emit them.\<close>

definition utf8_cp :: "nat \<Rightarrow> bytes" where
  "utf8_cp c =
     (if c < 0x80 then [of_nat c]
      else if c < 0x800 then [of_nat (0xc0 + c div 64), of_nat (0x80 + c mod 64)]
      else if c < 0x10000 then
        [of_nat (0xe0 + c div 4096), of_nat (0x80 + c div 64 mod 64), of_nat (0x80 + c mod 64)]
      else
        [of_nat (0xf0 + c div 262144), of_nat (0x80 + c div 4096 mod 64),
         of_nat (0x80 + c div 64 mod 64), of_nat (0x80 + c mod 64)])"

definition is_surrogate :: "16 word \<Rightarrow> bool" where
  "is_surrogate c = (0xd800 \<le> unat c \<and> unat c < 0xe000)"

text \<open>
  \<^verbatim>\<open>js-md5\<close> hashes a string through its own UTF-8 encoder: a code unit in the surrogate
  range is always combined with the code unit after it (\<^verbatim>\<open>charCodeAt\<close> past the end is
  \<^verbatim>\<open>NaN\<close>, and \<^verbatim>\<open>NaN & 0x3ff\<close> is 0).
\<close>

fun md5_utf8 :: "jsstring \<Rightarrow> bytes" where
  "md5_utf8 [] = []"
| "md5_utf8 [c] =
     (if is_surrogate c then utf8_cp (0x10000 + (unat c mod 1024) * 1024)
      else utf8_cp (unat c))"
| "md5_utf8 (c # d # cs) =
     (if is_surrogate c
      then utf8_cp (0x10000 + (unat c mod 1024) * 1024 + unat d mod 1024) @ md5_utf8 cs
      else utf8_cp (unat c) @ md5_utf8 (d # cs))"

definition md5Hash_string :: "jsstring \<Rightarrow> bytes" where
  "md5Hash_string s = md5 (md5_utf8 s)"

text \<open>
  \<^verbatim>\<open>unescape(encodeURIComponent(s))\<close> is the UTF-8 encoding of \<open>s\<close>, one character per
  byte; \<^verbatim>\<open>encodeURIComponent\<close> throws a \<^verbatim>\<open>URIError\<close> on a surrogate that is not part of
  a pair.
\<close>

fun encodeURIComponent_bytes :: "jsstring \<Rightarrow> error + bytes" where
  "encodeURIComponent_bytes [] = Inr []"
| "encodeURIComponent_bytes (c # cs) =
     (if \<not> is_surrogate c then
        (case encodeURIComponent_bytes cs of
           Inl e \<Rightarrow> Inl e
         | Inr bs \<Rightarrow> Inr (utf8_cp (unat c) @ bs))
      else if 0xdc00 \<le> unat c then Inl URIError
      else
        (case cs of
           [] \<Rightarrow> Inl URIError
         | d # ds \<Rightarrow>
             if 0xdc00 \<le> unat d \<and> unat d < 0xe000 then
               (case encodeURIComponent_bytes ds of
                  Inl e \<Rightarrow> Inl e
                | Inr bs \<Rightarrow>
                    Inr (utf8_cp (0x10000 + (unat c - 0xd800) * 1024 + (unat d - 0xdc00)) @ bs))
             else Inl URIError))"

text \<open>The decimal digits of a number that is an integer, as a template literal prints it.\<close>

fun decimal_nat :: "nat \<Rightarrow> jsstring" where
  "decimal_nat n =
     (if n < 10 then [of_nat (48 + n)]
      else decimal_nat (n div 10) @ [of_nat (48 + n mod 10)])"

declare decimal_nat.simps [simp del]

definition decimal :: "int \<Rightarrow> jsstring" where
  "decimal n = (if n < 0 then js ''-'' @ decimal_nat (nat (- n)) else decimal_nat (nat n))"

section \<open>The security handler (\<^verbatim>\<open>lib/security.js\<close>)\<close>

subsection \<open>Options, document and handler state\<close>

text \<open>
  A permission can be given as any value; the code tests truthiness, and for printing
  compares with two strings.
\<close>

datatype jsval = Undefined | JBool bool | JStr jsstring

fun truthy :: "jsval \<Rightarrow> bool" where
  "truthy Undefined = False"
| "truthy (JBool b) = b"
| "truthy (JStr s) = (s \<noteq> [])"

record permissionObject =
  printing :: jsval
  modifying :: jsval
  copying :: jsval
  annotating :: jsval
  fillingForms :: jsval
  contentAccessibility :: jsval
  documentAssembly :: jsval

definition empty_permissions :: permissionObject where
  "empty_permissions =
     \<lparr>printing = Undefined, modifying = Undefined, copying = Undefined,
      annotating = Undefined, fillingForms = Undefined, contentAccessibility = Undefined,
      documentAssembly = Undefined\<rparr>"

record options =
  pdfVersion :: "string option"
  userPassword :: "jsstring option"
  ownerPassword :: "jsstring option"
  permissions :: "permissionObject option"

text \<open>A password option is truthy when it is a non-empty string.\<close>

fun truthy_password :: "jsstring option \<Rightarrow> bool" where
  "truthy_password None = False"
| "truthy_password (Some s) = (s \<noteq> [])"

record document =
  doc_id :: bytes

record stdCF =
  AuthEvent :: string
  CFM :: string
  CFLength :: nat

record encDict =
  Filter :: string
  V :: nat
  Length :: "nat option"
  CF :: "stdCF option"
  StmF :: "string option"
  StrF :: "string option"
  R :: nat
  O_entry :: bytes
  OE :: "bytes option"
  U :: bytes
  UE :: "bytes option"
  P :: int
  Perms :: "bytes option"

record security =
  version :: nat
  keyBits :: nat
  encryptionKey :: bytes
  dictionary :: encDict

subsection \<open>Permissions\<close>

text \<open>
  The permission value is a 32-bit integer: \<^verbatim>\<open>0xffffffc0 >> 0\<close> is the int32 with that
  bit pattern and \<^verbatim>\<open>|=\<close> works on int32. \<open>sint\<close> reads the number the code holds.
\<close>

definition default_permissions :: "permissionObject option \<Rightarrow> permissionObject" where
  "default_permissions po = (case po of None \<Rightarrow> empty_permissions | Some x \<Rightarrow> x)"

definition or_if :: "bool \<Rightarrow> 32 word \<Rightarrow> 32 word \<Rightarrow> 32 word" where
  "or_if c m p = (if c then p OR m else p)"

definition getPermissionsR2 :: "permissionObject option \<Rightarrow> 32 word" where
  "getPermissionsR2 po =
     (let permissionObject = default_permissions po;
          permissions = 0xffffffc0;
          permissions = or_if (truthy (printing permissionObject)) 0b000000000100 permissions;
          permissions = or_if (truthy (modifying permissionObject)) 0b000000001000 permissions;
          permissions = or_if (truthy (copying permissionObject)) 0b000000010000 permissions;
          permissions = or_if (truthy (annotating permissionObject)) 0b000000100000 permissions
      in permissions)"

definition getPermissionsR3 :: "permissionObject option \<Rightarrow> 32 word" where
  "getPermissionsR3 po =
     (let permissionObject = default_permissions po;
          permissions = 0xfffff0c0;
          permissions = or_if (printing permissionObject = JStr (js ''lowResolution''))
                          0b000000000100 permissions;
          permissions = or_if (printing permissionObject = JStr (js ''highResolution''))
                          0b100000000100 permissions;
          permissions = or_if (truthy (modifying permissionObject)) 0b000000001000 permissions;
          permissions = or_if (truthy (copying permissionObject)) 0b000000010000 permissions;
          permissions = or_if (truthy (annotating permissionObject)) 0b000000100000 permissions;
          permissions = or_if (truthy (fillingForms permissionObject)) 0b000100000000 permissions;
          permissions = or_if (truthy (contentAccessibility permissionObject))
                          0b001000000000 permissions;
          permissions = or_if (truthy (documentAssembly permissionObject))
                          0b010000000000 permissions
      in permissions)"

subsection \<open>Password processing\<close>

definition PASSWORD_PADDING :: bytes where
  "PASSWORD_PADDING = [
    0x28, 0xbf, 0x4e, 0x5e, 0x4e, 0x75, 0x8a, 0x41, 0x64, 0x00, 0x4e, 0x56, 0xff,
    0xfa, 0x01, 0x08, 0x2e, 0x2e, 0x00, 0xb6, 0xd0, 0x68, 0x3e, 0x80, 0x2f, 0x0c,
    0xa9, 0xfe, 0x64, 0x53, 0x69, 0x7a]"

text \<open>The first loop of \<^verbatim>\<open>processPasswordR2R3R4\<close>: copy character codes, throwing on a
  code above \<^verbatim>\<open>0xff\<close>. It returns the array and the index it stopped at.\<close>

function copy_password :: "jsstring \<Rightarrow> bytes \<Rightarrow> nat \<Rightarrow> error + bytes \<times> nat" where
  "copy_password password out index =
     (if index < length password \<and> index < 32 then
        (let code = password ! index
         in if 0xff < unat code then Inl InvalidPasswordCharacters
            else copy_password password (out[index := ucast code]) (Suc index))
      else Inr (out, index))"
  by pat_completeness auto
termination
  by (relation "measure (\<lambda>(password, out, index). 32 - index)") auto

text \<open>The second loop: fill the rest from the padding constant.\<close>

function pad_password :: "jsstring \<Rightarrow> bytes \<Rightarrow> nat \<Rightarrow> bytes" where
  "pad_password password out index =
     (if index < 32 then
        pad_password password (out[index := PASSWORD_PADDING ! (index - length password)])
          (Suc index)
      else out)"
  by pat_completeness auto
termination
  by (relation "measure (\<lambda>(password, out, index). 32 - index)") auto

text \<open>The default parameter \<^verbatim>\<open>password = ''\<close>.\<close>

definition default_password :: "jsstring option \<Rightarrow> jsstring" where
  "default_password pw = (case pw of None \<Rightarrow> [] | Some s \<Rightarrow> s)"

definition processPasswordR2R3R4 :: "jsstring option \<Rightarrow> error + bytes" where
  "processPasswordR2R3R4 pw =
     (let password = default_password pw
      in case copy_password password (replicate 32 0) 0 of
           Inl e \<Rightarrow> Inl e
         | Inr (out, index) \<Rightarrow> Inr (pad_password password out index))"

text \<open>
  \<^verbatim>\<open>processPasswordR5\<close> calls \<^verbatim>\<open>saslprep\<close>, which lives in another module of the
  library; it is a parameter here, a function that returns the prepared string or throws.
\<close>

definition processPasswordR5 ::
  "(jsstring \<Rightarrow> error + jsstring) \<Rightarrow> jsstring option \<Rightarrow> error + bytes" where
  "processPasswordR5 saslprep pw =
     (let password = default_password pw
      in case saslprep password of
           Inl e \<Rightarrow> Inl e
         | Inr prepared \<Rightarrow>
             (case encodeURIComponent_bytes prepared of
                Inl e \<Rightarrow> Inl e
              | Inr password' \<Rightarrow> Inr (take (min 127 (length password')) password')))"

subsection \<open>Entries for revisions 2 to 4\<close>

text \<open>
  \<^verbatim>\<open>keyBits / 8\<close> is an exact division for the key sizes the handler sets (40, 128, 256).
  \<^verbatim>\<open>xorKey\<close> has \<open>keyLen\<close> elements; where \<open>key\<close> is shorter, \<^verbatim>\<open>key[j]\<close> is
  \<^verbatim>\<open>undefined\<close> and \<^verbatim>\<open>undefined ^ i\<close> is \<open>i\<close>.
\<close>

definition xorKey_of :: "nat \<Rightarrow> bytes \<Rightarrow> nat \<Rightarrow> bytes" where
  "xorKey_of keyLen key i =
     map (\<lambda>j. (if j < length key then key ! j else 0) XOR of_nat i) [0..<keyLen]"

definition getOwnerPasswordR2R3R4 :: "nat \<Rightarrow> nat \<Rightarrow> bytes \<Rightarrow> bytes \<Rightarrow> bytes" where
  "getOwnerPasswordR2R3R4 r keyBits' paddedUserPassword paddedOwnerPassword =
     (let round = (if 3 \<le> r then 51 else 1);
          digest = foldl (\<lambda>digest i. md5Hash digest) paddedOwnerPassword [0..<round];
          keyLen = keyBits' div 8;
          key = take keyLen digest;
          round = (if 3 \<le> r then 20 else 1)
      in foldl (\<lambda>cipher i. rc4 cipher (xorKey_of keyLen key i)) paddedUserPassword [0..<round])"

text \<open>
  The bytes of an int32, least significant first: \<^verbatim>\<open>(x >> k) & 0xff\<close> with the
  sign-propagating shift.
\<close>

definition int32_byte :: "32 word \<Rightarrow> nat \<Rightarrow> byte" where
  "int32_byte x k = ucast (signed_drop_bit k x AND 0xff)"

definition getEncryptionKeyR2R3R4 ::
  "nat \<Rightarrow> nat \<Rightarrow> bytes \<Rightarrow> bytes \<Rightarrow> bytes \<Rightarrow> 32 word \<Rightarrow> bytes" where
  "getEncryptionKeyR2R3R4 r keyBits' documentId paddedUserPassword ownerPasswordEntry permissions' =
     (let permBytes = [int32_byte permissions' 0, int32_byte permissions' 8,
                       int32_byte permissions' 16, int32_byte permissions' 24];
          key = concatBytes [paddedUserPassword, ownerPasswordEntry, permBytes, documentId];
          round = (if 3 \<le> r then 51 else 1);
          keyLen = keyBits' div 8
      in foldl (\<lambda>key i. take keyLen (md5Hash key)) key [0..<round])"

definition getUserPasswordR2 :: "bytes \<Rightarrow> error + bytes" where
  "getUserPasswordR2 encryptionKey' =
     (case processPasswordR2R3R4 None of
        Inl e \<Rightarrow> Inl e
      | Inr padded \<Rightarrow> Inr (rc4 padded encryptionKey'))"

text \<open>\<^verbatim>\<open>result.set(cipher)\<close> copies the cipher to the front of 32 zero bytes, and throws a
  \<^verbatim>\<open>RangeError\<close> for a longer one (which an MD5 digest never is).\<close>

definition getUserPasswordR3R4 :: "bytes \<Rightarrow> bytes \<Rightarrow> error + bytes" where
  "getUserPasswordR3R4 documentId encryptionKey' =
     (case processPasswordR2R3R4 None of
        Inl e \<Rightarrow> Inl e
      | Inr padded \<Rightarrow>
          (let cipher = md5Hash (concatBytes [padded, documentId]);
               cipher = foldl (\<lambda>cipher i.
                          rc4 cipher (xorKey_of (length encryptionKey') encryptionKey' i))
                        cipher [0..<20]
           in if 32 < length cipher then Inl RangeError
              else Inr (cipher @ replicate (32 - length cipher) 0)))"

subsection \<open>Entries for revision 5\<close>

definition slice :: "nat \<Rightarrow> nat \<Rightarrow> bytes \<Rightarrow> bytes" where
  "slice a b xs = take (b - a) (drop a xs)"

definition getUserPasswordR5 :: "bytes \<Rightarrow> rng \<Rightarrow> bytes \<times> rng" where
  "getUserPasswordR5 processedUserPassword rng =
     (case generateRandomWordArray 8 rng of (validationSalt, rng1) \<Rightarrow>
      case generateRandomWordArray 8 rng1 of (keySalt, rng2) \<Rightarrow>
        (concatBytes [sha256Hash (concatBytes [processedUserPassword, validationSalt]),
                      validationSalt, keySalt], rng2))"

definition getUserEncryptionKeyR5 :: "bytes \<Rightarrow> bytes \<Rightarrow> bytes \<Rightarrow> error + bytes" where
  "getUserEncryptionKeyR5 processedUserPassword userKeySalt encryptionKey' =
     (let key = sha256Hash (concatBytes [processedUserPassword, userKeySalt]);
          iv = replicate 16 0
      in aesCbcEncrypt encryptionKey' key iv False)"

definition getOwnerPasswordR5 :: "bytes \<Rightarrow> bytes \<Rightarrow> rng \<Rightarrow> bytes \<times> rng" where
  "getOwnerPasswordR5 processedOwnerPassword userPasswordEntry rng =
     (case generateRandomWordArray 8 rng of (validationSalt, rng1) \<Rightarrow>
      case generateRandomWordArray 8 rng1 of (keySalt, rng2) \<Rightarrow>
        (concatBytes
           [sha256Hash (concatBytes [processedOwnerPassword, validationSalt, userPasswordEntry]),
            validationSalt, keySalt], rng2))"

definition getOwnerEncryptionKeyR5 :: "bytes \<Rightarrow> bytes \<Rightarrow> bytes \<Rightarrow> bytes \<Rightarrow> error + bytes" where
  "getOwnerEncryptionKeyR5 processedOwnerPassword ownerKeySalt userPasswordEntry encryptionKey' =
     (let key = sha256Hash
                  (concatBytes [processedOwnerPassword, ownerKeySalt, userPasswordEntry]);
          iv = replicate 16 0
      in aesCbcEncrypt encryptionKey' key iv False)"

definition getEncryptionKeyR5 :: "rng \<Rightarrow> bytes \<times> rng" where
  "getEncryptionKeyR5 rng = generateRandomWordArray 32 rng"

text \<open>\<^verbatim>\<open>data.set(randomPart, 12)\<close> writes the four random bytes at offsets 12 to 15.\<close>

definition getEncryptedPermissionsR5 :: "32 word \<Rightarrow> bytes \<Rightarrow> rng \<Rightarrow> (error + bytes) \<times> rng" where
  "getEncryptedPermissionsR5 permissions' encryptionKey' rng =
     (let data = replicate 16 0;
          data = data[0 := int32_byte permissions' 0];
          data = data[1 := int32_byte permissions' 8];
          data = data[2 := int32_byte permissions' 16];
          data = data[3 := int32_byte permissions' 24];
          data = data[4 := 0xff];
          data = data[5 := 0xff];
          data = data[6 := 0xff];
          data = data[7 := 0xff];
          data = data[8 := 0x54];
          data = data[9 := 0x61];
          data = data[10 := 0x64];
          data = data[11 := 0x62]
      in case generateRandomWordArray 4 rng of (randomPart, rng1) \<Rightarrow>
           (aesEcbEncrypt (take 12 data @ randomPart) encryptionKey', rng1))"

subsection \<open>The constructor\<close>

text \<open>
  \<^verbatim>\<open>_setupEncryptionV1V2V4\<close>. The handler state is returned instead of being assigned to
  \<^verbatim>\<open>this\<close>; \<^verbatim>\<open>document.ref(encDict)\<close> is the dictionary itself. For a \<open>v\<close> outside
  1, 2 and 4 the source's \<^verbatim>\<open>switch\<close> leaves \<open>r\<close> and the permissions undefined; the
  dispatcher never passes one, and the model then takes the branch of version 1.
\<close>

definition setupEncryptionV1V2V4 :: "nat \<Rightarrow> document \<Rightarrow> options \<Rightarrow> error + security" where
  "setupEncryptionV1V2V4 v doc opts =
     (let r = (if v = 2 then 3 else if v = 4 then 4 else 2);
          keyBits' = (if v = 2 then 128 else if v = 4 then 128 else 40);
          permissions' = (if v = 2 then getPermissionsR3 (permissions opts)
                          else if v = 4 then getPermissionsR3 (permissions opts)
                          else getPermissionsR2 (permissions opts))
      in case processPasswordR2R3R4 (userPassword opts) of
           Inl e \<Rightarrow> Inl e
         | Inr paddedUserPassword \<Rightarrow>
      case (if truthy_password (ownerPassword opts)
            then processPasswordR2R3R4 (ownerPassword opts)
            else Inr paddedUserPassword) of
           Inl e \<Rightarrow> Inl e
         | Inr paddedOwnerPassword \<Rightarrow>
      let ownerPasswordEntry =
            getOwnerPasswordR2R3R4 r keyBits' paddedUserPassword paddedOwnerPassword;
          encryptionKey' =
            getEncryptionKeyR2R3R4 r keyBits' (doc_id doc) paddedUserPassword
              ownerPasswordEntry permissions'
      in case (if r = 2 then getUserPasswordR2 encryptionKey'
               else getUserPasswordR3R4 (doc_id doc) encryptionKey') of
           Inl e \<Rightarrow> Inl e
         | Inr userPasswordEntry \<Rightarrow>
             Inr \<lparr>version = v, keyBits = keyBits', encryptionKey = encryptionKey',
                  dictionary =
                    \<lparr>Filter = ''Standard'',
                     V = v,
                     Length = (if 2 \<le> v then Some keyBits' else None),
                     CF = (if v = 4
                           then Some \<lparr>AuthEvent = ''DocOpen'', CFM = ''AESV2'',
                                      CFLength = keyBits' div 8\<rparr>
                           else None),
                     StmF = (if v = 4 then Some ''StdCF'' else None),
                     StrF = (if v = 4 then Some ''StdCF'' else None),
                     R = r,
                     O_entry = ownerPasswordEntry,
                     OE = None,
                     U = userPasswordEntry,
                     UE = None,
                     P = sint permissions',
                     Perms = None\<rparr>\<rparr>)"

text \<open>\<^verbatim>\<open>_setupEncryptionV5\<close>; the random draws happen in the order of the calls.\<close>

definition setupEncryptionV5 ::
  "(jsstring \<Rightarrow> error + jsstring) \<Rightarrow> options \<Rightarrow> rng \<Rightarrow> (error + security) \<times> rng" where
  "setupEncryptionV5 saslprep opts rng =
     (let permissions' = getPermissionsR3 (permissions opts)
      in case processPasswordR5 saslprep (userPassword opts) of
           Inl e \<Rightarrow> (Inl e, rng)
         | Inr processedUserPassword \<Rightarrow>
      case (if truthy_password (ownerPassword opts)
            then processPasswordR5 saslprep (ownerPassword opts)
            else Inr processedUserPassword) of
           Inl e \<Rightarrow> (Inl e, rng)
         | Inr processedOwnerPassword \<Rightarrow>
      case getEncryptionKeyR5 rng of (encryptionKey', rng1) \<Rightarrow>
      case getUserPasswordR5 processedUserPassword rng1 of (userPasswordEntry, rng2) \<Rightarrow>
      let userKeySalt = slice 40 48 userPasswordEntry
      in case getUserEncryptionKeyR5 processedUserPassword userKeySalt encryptionKey' of
           Inl e \<Rightarrow> (Inl e, rng2)
         | Inr userEncryptionKeyEntry \<Rightarrow>
      case getOwnerPasswordR5 processedOwnerPassword userPasswordEntry rng2 of
        (ownerPasswordEntry, rng3) \<Rightarrow>
      let ownerKeySalt = slice 40 48 ownerPasswordEntry
      in case getOwnerEncryptionKeyR5 processedOwnerPassword ownerKeySalt userPasswordEntry
                encryptionKey' of
           Inl e \<Rightarrow> (Inl e, rng3)
         | Inr ownerEncryptionKeyEntry \<Rightarrow>
      case getEncryptedPermissionsR5 permissions' encryptionKey' rng3 of
        (Inl e, rng4) \<Rightarrow> (Inl e, rng4)
      | (Inr permsEntry, rng4) \<Rightarrow>
          (Inr \<lparr>version = 5, keyBits = 256, encryptionKey = encryptionKey',
                dictionary =
                  \<lparr>Filter = ''Standard'',
                   V = 5,
                   Length = Some 256,
                   CF = Some \<lparr>AuthEvent = ''DocOpen'', CFM = ''AESV3'', CFLength = 256 div 8\<rparr>,
                   StmF = Some ''StdCF'',
                   StrF = Some ''StdCF'',
                   R = 5,
                   O_entry = ownerPasswordEntry,
                   OE = Some ownerEncryptionKeyEntry,
                   U = userPasswordEntry,
                   UE = Some userEncryptionKeyEntry,
                   P = sint permissions',
                   Perms = Some permsEntry\<rparr>\<rparr>, rng4))"

definition version_of :: "string option \<Rightarrow> nat" where
  "version_of pv =
     (if pv = Some ''1.4'' \<or> pv = Some ''1.5'' then 2
      else if pv = Some ''1.6'' \<or> pv = Some ''1.7'' then 4
      else if pv = Some ''1.7ext3'' then 5
      else 1)"

definition setupEncryption ::
  "(jsstring \<Rightarrow> error + jsstring) \<Rightarrow> document \<Rightarrow> options \<Rightarrow> rng \<Rightarrow> (error + security) \<times> rng"
  where
  "setupEncryption saslprep doc opts rng =
     (let v = version_of (pdfVersion opts)
      in if v = 5 then setupEncryptionV5 saslprep opts rng
         else (setupEncryptionV1V2V4 v doc opts, rng))"

text \<open>\<^verbatim>\<open>new PDFSecurity(document, options)\<close>.\<close>

definition PDFSecurity ::
  "(jsstring \<Rightarrow> error + jsstring) \<Rightarrow> document \<Rightarrow> options \<Rightarrow> rng \<Rightarrow> (error + security) \<times> rng"
  where
  "PDFSecurity saslprep doc opts rng =
     (if \<not> truthy_password (ownerPassword opts) \<and> \<not> truthy_password (userPassword opts)
      then (Inl NoPasswordDefined, rng)
      else setupEncryption saslprep doc opts rng)"

subsection \<open>The per-object encryptor\<close>

text \<open>
  The object and generation numbers are JavaScript numbers holding integers; the bitwise
  operators convert them to int32 first. The function that \<^verbatim>\<open>getEncryptFn\<close> returns is
  modelled with the generator it could reach: it takes the tape and returns it.
  \<open>digest\<close> is only assigned below version 5 and only read for versions 1, 2 and 4.
\<close>

type_synonym encryptFn = "bytes \<Rightarrow> rng \<Rightarrow> (error + bytes) \<times> rng"

definition getEncryptFn :: "security \<Rightarrow> int \<Rightarrow> int \<Rightarrow> rng \<Rightarrow> encryptFn \<times> rng" where
  "getEncryptFn sec obj gen rng =
     (let suffix = [int32_byte (word_of_int obj) 0, int32_byte (word_of_int obj) 8,
                    int32_byte (word_of_int obj) 16,
                    int32_byte (word_of_int gen) 0, int32_byte (word_of_int gen) 8];
          digest = concatBytes [encryptionKey sec, suffix]
      in if version sec = 1 \<or> version sec = 2 then
           (let key = md5Hash digest;
                keyLen = min 16 (keyBits sec div 8 + 5);
                key = take keyLen key
            in (\<lambda>buffer r. (Inr (rc4 buffer key), r), rng))
         else
           (let key = (if version sec = 4
                       then md5Hash (concatBytes [digest, [0x73, 0x41, 0x6c, 0x54]])
                       else encryptionKey sec)
            in case generateRandomWordArray 16 rng of (iv, rng1) \<Rightarrow>
                 (\<lambda>buffer r.
                    (case aesCbcEncrypt buffer key iv True of
                       Inl e \<Rightarrow> Inl e
                     | Inr encrypted \<Rightarrow> Inr (concatBytes [iv, encrypted]), r),
                  rng1)))"

subsection \<open>The file identifier\<close>

text \<open>
  The info object is the list of its own enumerable properties in enumeration order. A
  value is a date (its time value in milliseconds, an integer) or a string;
  \<^verbatim>\<open>valueOf()\<close> of a date is the number, of a string the string. Calling
  \<^verbatim>\<open>getTime\<close> on a missing \<^verbatim>\<open>CreationDate\<close> or on a string throws a \<^verbatim>\<open>TypeError\<close>.
\<close>

datatype infoval = IDate int | IStr jsstring

type_synonym info = "(jsstring \<times> infoval) list"

fun valueOf_string :: "infoval \<Rightarrow> jsstring" where
  "valueOf_string (IDate ms) = decimal ms"
| "valueOf_string (IStr s) = s"

fun info_loop :: "info \<Rightarrow> jsstring \<Rightarrow> jsstring" where
  "info_loop [] infoStr = infoStr"
| "info_loop ((key, val) # rest) infoStr =
     info_loop rest (infoStr @ key @ js '': '' @ valueOf_string val @ [0x0a])"

definition generateFileID :: "info \<Rightarrow> error + bytes" where
  "generateFileID info =
     (case map_of info (js ''CreationDate'') of
        None \<Rightarrow> Inl TypeError
      | Some (IStr s) \<Rightarrow> Inl TypeError
      | Some (IDate ms) \<Rightarrow> Inr (md5Hash_string (info_loop info (decimal ms @ [0x0a]))))"

section \<open>Reference functions of the specification\<close>

text \<open>
  The functions of this section are not in the source. They write the specification's
  formulas down, to be compared with the functions modelled from the code.
\<close>

text \<open>One of the code units that \<^verbatim>\<open>processPasswordR2R3R4\<close> reads, the first 32, is above
  \<^verbatim>\<open>0xff\<close>.\<close>

definition has_invalid_character :: "jsstring \<Rightarrow> bool" where
  "has_invalid_character password = list_ex (\<lambda>c. 0xff < unat c) (take 32 password)"

text \<open>Any code unit of the password is above \<^verbatim>\<open>0xff\<close>.\<close>

definition contains_wide_character :: "jsstring \<Rightarrow> bool" where
  "contains_wide_character password = list_ex (\<lambda>c. 0xff < unat c) password"

text \<open>The first \<open>min(length, 32)\<close> character codes, then the start of the padding
  constant.\<close>

definition spec_padded :: "jsstring \<Rightarrow> bytes" where
  "spec_padded password =
     map ucast (take 32 password) @ take (32 - length password) PASSWORD_PADDING"

text \<open>The password that stands for the owner: the owner password when one is given,
  the user password otherwise.\<close>

definition owner_or_user :: "options \<Rightarrow> jsstring" where
  "owner_or_user opts =
     (if truthy_password (ownerPassword opts) then default_password (ownerPassword opts)
      else default_password (userPassword opts))"

text \<open>The permission value the constructor computes for a version.\<close>

definition permissions_of :: "nat \<Rightarrow> options \<Rightarrow> 32 word" where
  "permissions_of v opts =
     (if v = 1 then getPermissionsR2 (permissions opts) else getPermissionsR3 (permissions opts))"

text \<open>The owner entry as the specification computes it.\<close>

definition spec_ownerEntry :: "nat \<Rightarrow> nat \<Rightarrow> bytes \<Rightarrow> bytes \<Rightarrow> bytes" where
  "spec_ownerEntry r kb paddedUser paddedOwner =
     (let digest = md5Hash paddedOwner;
          digest = (if 3 \<le> r then (md5Hash ^^ 50) digest else digest);
          key = take (kb div 8) digest
      in if 3 \<le> r
         then foldl (\<lambda>cipher i. rc4 cipher (map (\<lambda>b. b XOR of_nat i) key)) paddedUser [0..<20]
         else rc4 paddedUser key)"

text \<open>The file encryption key as the specification computes it.\<close>

definition spec_fileKey :: "nat \<Rightarrow> nat \<Rightarrow> bytes \<Rightarrow> bytes \<Rightarrow> 32 word \<Rightarrow> bytes \<Rightarrow> bytes" where
  "spec_fileKey r kb paddedUser ownerEntry perms fileID1 =
     (let input = paddedUser @ ownerEntry @ le32 perms @ fileID1;
          key = md5Hash input;
          key = (if 3 \<le> r then ((\<lambda>k. md5Hash (take (kb div 8) k)) ^^ 50) key else key)
      in take (kb div 8) key)"

text \<open>The bytes \<open>a, ..., b - 1\<close> of the generator's tape.\<close>

definition tape_bytes :: "rng \<Rightarrow> nat \<Rightarrow> nat \<Rightarrow> bytes" where
  "tape_bytes r a b = map r [a..<b]"

text \<open>The generator after \<open>n\<close> bytes have been drawn.\<close>

definition tape_after :: "nat \<Rightarrow> rng \<Rightarrow> rng" where
  "tape_after n r = (\<lambda>i. r (i + n))"

text \<open>The \<open>k\<close> low bytes of an integer, least significant first.\<close>

definition le_bytes :: "nat \<Rightarrow> int \<Rightarrow> bytes" where
  "le_bytes k n = map (\<lambda>i. of_int (n div 256 ^ i)) [0..<k]"

text \<open>The per-object key as the specification computes it; \<open>marker\<close> is empty for RC4 and
  \<^verbatim>\<open>sAlT\<close> for AES.\<close>

definition spec_objectKey :: "nat \<Rightarrow> bytes \<Rightarrow> int \<Rightarrow> int \<Rightarrow> bytes \<Rightarrow> bytes" where
  "spec_objectKey kb fileKey n g marker =
     take (min 16 (kb div 8 + 5)) (md5Hash (fileKey @ le_bytes 3 n @ le_bytes 2 g @ marker))"

text \<open>The marker \<^verbatim>\<open>sAlT\<close> that the key derivation of AES appends.\<close>

definition sAlT :: bytes where
  "sAlT = [0x73, 0x41, 0x6c, 0x54]"

text \<open>The key of the AES encryptor: derived per object under version 4, the file key
  under version 5.\<close>

definition spec_aesKey :: "security \<Rightarrow> int \<Rightarrow> int \<Rightarrow> bytes" where
  "spec_aesKey sec n g =
     (if version sec = 4 then spec_objectKey (keyBits sec) (encryptionKey sec) n g sAlT
      else encryptionKey sec)"

text \<open>\<open>ceil(a / b)\<close> on natural numbers.\<close>

definition ceil_div :: "nat \<Rightarrow> nat \<Rightarrow> nat" where
  "ceil_div a b = (a + b - 1) div b"

text \<open>
  A caller that obtains the encryptor of one object and invokes it on two buffers in
  turn:
  \<^verbatim>\<open>const f = security.getEncryptFn(obj, gen); const a = f(b1); const b = f(b2);\<close>
\<close>

definition encrypt_twice ::
  "security \<Rightarrow> int \<Rightarrow> int \<Rightarrow> bytes \<Rightarrow> bytes \<Rightarrow> rng
     \<Rightarrow> ((error + bytes) \<times> (error + bytes)) \<times> rng" where
  "encrypt_twice sec obj gen b1 b2 rng =
     (case getEncryptFn sec obj gen rng of (encryptFn, rng1) \<Rightarrow>
      case encryptFn b1 rng1 of (out1, rng2) \<Rightarrow>
      case encryptFn b2 rng2 of (out2, rng3) \<Rightarrow> ((out1, out2), rng3))"

text \<open>The 16-byte block behind the Perms entry: the permissions, least significant byte
  first, four bytes \<^verbatim>\<open>0xff\<close>, the bytes \<^verbatim>\<open>54 61 64 62\<close>, and four random bytes.\<close>

definition spec_permsBlock :: "32 word \<Rightarrow> bytes \<Rightarrow> bytes" where
  "spec_permsBlock perms random4 =
     le32 perms @ [0xff, 0xff, 0xff, 0xff] @ [0x54, 0x61, 0x64, 0x62] @ random4"

text \<open>The string that the file identifier is the MD5 digest of: the creation date's
  milliseconds and a newline, then for each key of the info object, in order, the key,
  a colon and a space, the value as a string, and a newline.\<close>

definition spec_infoString :: "int \<Rightarrow> info \<Rightarrow> jsstring" where
  "spec_infoString ms info =
     decimal ms @ [0x0a]
       @ concat (map (\<lambda>kv. fst kv @ js '': '' @ valueOf_string (snd kv) @ [0x0a]) info)"

section \<open>Example inputs\<close>

text \<open>An example configuration: the document identifier of the unit tests' mock document,
  the user password \<^verbatim>\<open>test\<close>, and a generator that yields 0, 1, 2, ...\<close>

definition ex_doc :: document where
  "ex_doc = \<lparr>doc_id = [1, 2, 3, 4, 5, 6, 7, 8, 9, 10, 11, 12, 13, 14, 15, 16]\<rparr>"

definition ex_opts :: "string \<Rightarrow> options" where
  "ex_opts pv = \<lparr>pdfVersion = Some pv, userPassword = Some (js ''test''),
                 ownerPassword = None, permissions = None\<rparr>"

definition ex_tape :: rng where
  "ex_tape i = of_nat i"

text \<open>The handler that the constructor returns for the example configuration, with a
  \<^verbatim>\<open>saslprep\<close> that returns its argument.\<close>

definition ex_security :: "string \<Rightarrow> security" where
  "ex_security pv = projr (fst (PDFSecurity Inr ex_doc (ex_opts pv) ex_tape))"

text \<open>The plaintext \<^verbatim>\<open>Test data for AES\<close> of the unit tests.\<close>

definition ex_buffer :: bytes where
  "ex_buffer = map (\<lambda>c. of_nat (of_char c)) ''Test data for AES''"

text \<open>The info object of the unit tests: created 2024-01-01T00:00:00Z, titled
  \<^verbatim>\<open>Test\<close>.\<close>

definition ex_info :: info where
  "ex_info = [(js ''CreationDate'', IDate 1704067200000), (js ''Title'', IStr (js ''Test''))]"

text \<open>A password of 32 letters \<^verbatim>\<open>a\<close> followed by U+0100.\<close>

definition long_password :: jsstring where
  "long_password = replicate 32 0x61 @ [0x100]"

definition long_password_opts :: options where
  "long_password_opts = \<lparr>pdfVersion = Some ''1.3'', userPassword = Some long_password,
                          ownerPassword = None, permissions = None\<rparr>"

section \<open>Properties of the primitives\<close>

lemma length_chunks: "length (chunks n xs) = length xs div n"
  by (simp add: chunks_def)

lemma length_rc4_prga: "length (rc4_prga s i j ds) = length ds"
  by (induction ds arbitrary: s i j) (simp_all add: Let_def)

lemma length_rc4: "length (rc4 data key) = length data"
  by (simp add: rc4_def length_rc4_prga)

lemma length_foldl_rc4: "length (foldl (\<lambda>cipher i. rc4 cipher (k i)) c xs) = length c"
  by (induction xs arbitrary: c) (simp_all add: length_rc4)

lemma length_le32: "length (le32 w) = 4"
  by (simp add: le32_def)

lemma length_be32: "length (be32 w) = 4"
  by (simp add: be32_def)

lemma length_md5: "length (md5 msg) = 16"
  by (simp add: md5_def length_le32 split: prod.splits)

lemma length_md5Hash: "length (md5Hash msg) = 16"
  by (simp add: md5Hash_def length_md5)

lemma length_sha256: "length (sha256 msg) = 32"
  by (simp add: sha256_def length_be32 split: prod.splits)

lemma length_sha256Hash: "length (sha256Hash msg) = 32"
  by (simp add: sha256Hash_def length_sha256)

lemma length_add_round_key: "length (add_round_key st rk) = 16"
  by (simp add: add_round_key_def)

lemma length_aes_block: "length (aes_block key blk) = 16"
  by (simp add: aes_block_def aes_encrypt_block_def Let_def length_add_round_key)

lemma length_cbc_blocks: "length (cbc_blocks key prev bs) = 16 * length bs"
  by (induction bs arbitrary: prev) (simp_all add: Let_def length_aes_block)

lemma length_pkcs7_pad: "length (pkcs7_pad data) = (length data div 16 + 1) * 16"
proof -
  have "length data + (16 - length data mod 16) = (length data div 16 + 1) * 16"
    by presburger
  then show ?thesis by (simp add: pkcs7_pad_def Let_def)
qed

lemma aesCbcEncrypt_padded:
  assumes "valid_key_size key" "length iv = 16"
  shows "\<exists>c. aesCbcEncrypt data key iv True = Inr c \<and> length c = (length data div 16 + 1) * 16"
  using assms by (simp add: aesCbcEncrypt_def length_cbc_blocks length_chunks length_pkcs7_pad)

lemma aesCbcEncrypt_unpadded:
  assumes "valid_key_size key" "length iv = 16" "length data mod 16 = 0"
  shows "\<exists>c. aesCbcEncrypt data key iv False = Inr c \<and> length c = length data"
  using assms by (auto simp add: aesCbcEncrypt_def length_cbc_blocks length_chunks)

lemma length_concat_aes: "length (concat (map (aes_block key) bs)) = 16 * length bs"
  by (induction bs) (simp_all add: length_aes_block)

lemma aesEcbEncrypt_length:
  assumes "valid_key_size key" "length data mod 16 = 0"
  shows "\<exists>c. aesEcbEncrypt data key = Inr c \<and> length c = length data"
  using assms by (auto simp add: aesEcbEncrypt_def length_concat_aes length_chunks)

lemma foldl_const_funpow: "foldl (\<lambda>x i. f x) a [0..<n] = (f ^^ n) a"
  by (induction n) simp_all

subsection \<open>Known answers\<close>

text \<open>The MD5 and SHA-256 known-answer vectors of the specification, computed by the
  definitions above.\<close>

lemma md5_empty:
  "md5 [] =
     [0xd4, 0x1d, 0x8c, 0xd9, 0x8f, 0x00, 0xb2, 0x04, 0xe9, 0x80, 0x09, 0x98, 0xec, 0xf8, 0x42, 0x7e]"
  by code_simp

lemma md5_hello:
  "md5 [0x68, 0x65, 0x6c, 0x6c, 0x6f] =
     [0x5d, 0x41, 0x40, 0x2a, 0xbc, 0x4b, 0x2a, 0x76, 0xb9, 0x71, 0x9d, 0x91, 0x10, 0x17, 0xc5, 0x92]"
  by code_simp

lemma sha256_hello:
  "sha256 [0x68, 0x65, 0x6c, 0x6c, 0x6f] =
     [0x2c, 0xf2, 0x4d, 0xba, 0x5f, 0xb0, 0xa3, 0x0e, 0x26, 0xe8, 0x3b, 0x2a, 0xc5, 0xb9, 0xe2, 0x9e,
      0x1b, 0x16, 0x1e, 0x5c, 0x1f, 0xa7, 0x42, 0x5e, 0x73, 0x04, 0x33, 0x62, 0x93, 0x8b, 0x98, 0x24]"
  by code_simp

section \<open>Permissions\<close>

lemma bit_or_if: "bit (or_if c m p) n \<longleftrightarrow> bit p n \<or> (c \<and> bit m n)"
  by (auto simp: or_if_def bit_or_iff)

lemma or_if_and_high: "m AND 0xfffff000 = 0 \<Longrightarrow> or_if c m p AND 0xfffff000 = p AND 0xfffff000"
  by (simp add: or_if_def bit.conj_disj_distrib2)

lemma getPermissionsR3_negative: "sint (getPermissionsR3 po) < 0"
proof -
  have "bit (getPermissionsR3 po) 31"
    by (simp add: getPermissionsR3_def Let_def bit_or_if)
  then show ?thesis
    using bit_last_iff [of "getPermissionsR3 po"] by simp
qed

lemma getPermissionsR3_bit_table:
  "\<not> bit (getPermissionsR3 po) 0 \<and> \<not> bit (getPermissionsR3 po) 1
   \<and> bit (getPermissionsR3 po) 6 \<and> bit (getPermissionsR3 po) 7
   \<and> (bit (getPermissionsR3 po) 2 \<longleftrightarrow>
        printing (default_permissions po) = JStr (js ''lowResolution'')
        \<or> printing (default_permissions po) = JStr (js ''highResolution''))
   \<and> (bit (getPermissionsR3 po) 11 \<longleftrightarrow>
        printing (default_permissions po) = JStr (js ''highResolution''))
   \<and> (bit (getPermissionsR3 po) 3 \<longleftrightarrow> truthy (modifying (default_permissions po)))
   \<and> (bit (getPermissionsR3 po) 4 \<longleftrightarrow> truthy (copying (default_permissions po)))
   \<and> (bit (getPermissionsR3 po) 5 \<longleftrightarrow> truthy (annotating (default_permissions po)))
   \<and> (bit (getPermissionsR3 po) 8 \<longleftrightarrow> truthy (fillingForms (default_permissions po)))
   \<and> (bit (getPermissionsR3 po) 9 \<longleftrightarrow> truthy (contentAccessibility (default_permissions po)))
   \<and> (bit (getPermissionsR3 po) 10 \<longleftrightarrow> truthy (documentAssembly (default_permissions po)))
   \<and> getPermissionsR3 po AND 0xfffff000 = 0xfffff000
   \<and> sint (getPermissionsR3 po) < 0"
  by (simp add: getPermissionsR3_def Let_def bit_or_if or_if_and_high
      getPermissionsR3_negative [unfolded getPermissionsR3_def Let_def])

section \<open>Password processing and the constructor for revisions 2 to 4\<close>

lemma length_PASSWORD_PADDING: "length PASSWORD_PADDING = 32"
  by (simp add: PASSWORD_PADDING_def)

lemma copy_password_spec:
  "index \<le> length password \<Longrightarrow> index \<le> 32 \<Longrightarrow> length out = 32 \<Longrightarrow>
   copy_password password out index =
     (if list_ex (\<lambda>c. 0xff < unat c) (take (32 - index) (drop index password))
      then Inl InvalidPasswordCharacters
      else Inr (take index out @ map ucast (take (32 - index) (drop index password))
                  @ drop (min 32 (length password)) out,
                min 32 (length password)))"
proof (induction password out index rule: copy_password.induct)
  case (1 password out index)
  show ?case
  proof (cases "index < length password \<and> index < 32")
    case True
    then have d: "drop index password = password ! index # drop (Suc index) password"
      by (simp add: Cons_nth_drop_Suc)
    from True have t: "32 - index = Suc (31 - index)" by arith
    show ?thesis
    proof (cases "0xff < unat (password ! index)")
      case bad: True
      with True show ?thesis
        by (subst copy_password.simps) (simp add: d t)
    next
      case ok: False
      have ih: "copy_password password (out[index := ucast (password ! index)]) (Suc index) =
        (if list_ex (\<lambda>c. 0xff < unat c) (take (32 - Suc index) (drop (Suc index) password))
         then Inl InvalidPasswordCharacters
         else Inr (take (Suc index) (out[index := ucast (password ! index)])
                     @ map ucast (take (32 - Suc index) (drop (Suc index) password))
                     @ drop (min 32 (length password)) (out[index := ucast (password ! index)]),
                   min 32 (length password)))"
        using True ok "1.prems" by (intro "1.IH") simp_all
      have tk: "take (Suc index) (out[index := ucast (password ! index)])
                  = take index out @ [ucast (password ! index)]"
        using True "1.prems" by (simp add: take_Suc_conv_app_nth)
      have dr: "drop (min 32 (length password)) (out[index := ucast (password ! index)])
                  = drop (min 32 (length password)) out"
        using True by simp
      show ?thesis
        using True ok
        by (subst copy_password.simps) (simp add: ih tk dr d t del: copy_password.simps)
    qed
  next
    case False
    with "1.prems" have "index = min 32 (length password)" by auto
    moreover from this have "take (32 - index) (drop index password) = []"
      using "1.prems" by (auto simp: min_def)
    ultimately show ?thesis
      using False "1.prems" by (subst copy_password.simps) (auto simp: min_def)
  qed
qed


lemma pad_password_spec:
  "length password \<le> index \<Longrightarrow> index \<le> 32 \<Longrightarrow> length out = 32 \<Longrightarrow>
   pad_password password out index =
     take index out @ take (32 - index) (drop (index - length password) PASSWORD_PADDING)"
proof (induction password out index rule: pad_password.induct)
  case (1 password out index)
  show ?case
  proof (cases "index < 32")
    case True
    let ?v = "PASSWORD_PADDING ! (index - length password)"
    have ih: "pad_password password (out[index := ?v]) (Suc index) =
        take (Suc index) (out[index := ?v])
          @ take (32 - Suc index) (drop (Suc index - length password) PASSWORD_PADDING)"
      using True "1.prems" by (intro "1.IH") simp_all
    have tk: "take (Suc index) (out[index := ?v]) = take index out @ [?v]"
      using True "1.prems" by (simp add: take_Suc_conv_app_nth)
    have lt: "index - length password < length PASSWORD_PADDING"
      using True by (simp add: length_PASSWORD_PADDING)
    have d: "drop (index - length password) PASSWORD_PADDING
               = ?v # drop (Suc index - length password) PASSWORD_PADDING"
      using lt "1.prems" by (simp add: Cons_nth_drop_Suc Suc_diff_le)
    from True have t: "32 - index = Suc (31 - index)" by arith
    show ?thesis
      using True by (subst pad_password.simps) (simp add: ih tk d t del: pad_password.simps)
  next
    case False
    with "1.prems" show ?thesis by (subst pad_password.simps) simp
  qed
qed

lemma processPasswordR2R3R4_Some:
  "processPasswordR2R3R4 pw =
     (if has_invalid_character password then Inl InvalidPasswordCharacters
      else Inr (spec_padded password))" if "default_password pw = password"
proof -
  let ?out = "map ucast (take 32 password) @ drop (min 32 (length password)) (replicate 32 0)"
  have c: "copy_password password (replicate 32 0) 0 =
     (if has_invalid_character password then Inl InvalidPasswordCharacters
      else Inr (?out, min 32 (length password)))"
    using copy_password_spec [of 0 password "replicate 32 0"]
    by (simp add: has_invalid_character_def)
  have p: "pad_password password ?out (min 32 (length password)) = spec_padded password"
    if "length password \<le> 32"
  proof -
    from that have m: "min 32 (length password) = length password" by simp
    have "pad_password password ?out (length password) =
            take (length password) ?out
              @ take (32 - length password) (drop (length password - length password) PASSWORD_PADDING)"
      using that by (intro pad_password_spec) (simp_all add: m)
    with that show ?thesis by (simp add: m spec_padded_def)
  qed
  have q: "pad_password password ?out (min 32 (length password)) = spec_padded password"
    if "32 < length password"
    using that by (subst pad_password.simps) (simp add: spec_padded_def)
  have "pad_password password ?out (min 32 (length password)) = spec_padded password"
    using p q by (cases "length password \<le> 32") simp_all
  with c that show ?thesis
    by (simp add: processPasswordR2R3R4_def)
qed

lemma length_spec_padded: "length (spec_padded password) = 32"
  by (simp add: spec_padded_def length_PASSWORD_PADDING)

lemma processPasswordR2R3R4_None: "processPasswordR2R3R4 None = Inr PASSWORD_PADDING"
  by (simp add: processPasswordR2R3R4_Some [of None "[]"] default_password_def
      has_invalid_character_def spec_padded_def length_PASSWORD_PADDING)


lemma processPasswordR2R3R4_eq:
  "processPasswordR2R3R4 pw =
     (if has_invalid_character (default_password pw) then Inl InvalidPasswordCharacters
      else Inr (spec_padded (default_password pw)))"
  by (rule processPasswordR2R3R4_Some) simp

lemma getUserPasswordR3R4_eq:
  "getUserPasswordR3R4 documentId key =
     Inr (foldl (\<lambda>cipher i. rc4 cipher (xorKey_of (length key) key i))
            (md5Hash (PASSWORD_PADDING @ documentId)) [0..<20] @ replicate 16 0)"
  by (simp add: getUserPasswordR3R4_def processPasswordR2R3R4_None Let_def concatBytes_def
      length_foldl_rc4 length_md5Hash)

lemma getUserPasswordR2_eq:
  "getUserPasswordR2 key = Inr (rc4 PASSWORD_PADDING key)"
  by (simp add: getUserPasswordR2_def processPasswordR2R3R4_None)

lemma version_of_cases:
  "version_of pv = 1 \<or> version_of pv = 2 \<or> version_of pv = 4 \<or> version_of pv = 5"
  by (simp add: version_of_def)

lemma PDFSecurity_R234_inv:
  assumes ok: "PDFSecurity saslprep doc opts rng = (Inr sec, rng')"
    and v: "version_of (pdfVersion opts) \<noteq> 5"
  shows "rng' = rng"
    and "version sec = version_of (pdfVersion opts)"
    and "keyBits sec = (if version sec = 1 then 40 else 128)"
    and "R (dictionary sec) = (if version sec = 1 then 2 else if version sec = 2 then 3 else 4)"
    and "\<not> has_invalid_character (default_password (userPassword opts))"
    and "\<not> has_invalid_character (owner_or_user opts)"
    and "O_entry (dictionary sec) =
           getOwnerPasswordR2R3R4 (R (dictionary sec)) (keyBits sec)
             (spec_padded (default_password (userPassword opts)))
             (spec_padded (owner_or_user opts))"
    and "encryptionKey sec =
           getEncryptionKeyR2R3R4 (R (dictionary sec)) (keyBits sec) (doc_id doc)
             (spec_padded (default_password (userPassword opts)))
             (O_entry (dictionary sec))
             (if version sec = 1 then getPermissionsR2 (permissions opts)
              else getPermissionsR3 (permissions opts))"
    and "P (dictionary sec) =
           sint (if version sec = 1 then getPermissionsR2 (permissions opts)
                 else getPermissionsR3 (permissions opts))"
  using ok v version_of_cases [of "pdfVersion opts"]
  by (auto simp: PDFSecurity_def setupEncryption_def setupEncryptionV1V2V4_def Let_def
      processPasswordR2R3R4_eq getUserPasswordR3R4_eq getUserPasswordR2_eq owner_or_user_def
      split: if_splits sum.splits)

lemma PDFSecurity_R234_success:
  assumes "version_of (pdfVersion opts) \<noteq> 5"
    and "truthy_password (ownerPassword opts) \<or> truthy_password (userPassword opts)"
    and "\<not> has_invalid_character (default_password (userPassword opts))"
    and "\<not> has_invalid_character (owner_or_user opts)"
  shows "\<exists>sec. PDFSecurity saslprep doc opts rng = (Inr sec, rng)"
  using assms
  by (auto simp: PDFSecurity_def setupEncryption_def setupEncryptionV1V2V4_def Let_def
      processPasswordR2R3R4_eq getUserPasswordR3R4_eq getUserPasswordR2_eq owner_or_user_def
      split: if_splits sum.splits)

lemma ex_security_ok:
  assumes "version_of (Some pv) \<noteq> 5"
  shows "PDFSecurity Inr ex_doc (ex_opts pv) ex_tape = (Inr (ex_security pv), ex_tape)"
proof -
  have v: "version_of (pdfVersion (ex_opts pv)) \<noteq> 5"
    using assms by (simp add: ex_opts_def)
  obtain sec where "PDFSecurity Inr ex_doc (ex_opts pv) ex_tape = (Inr sec, ex_tape)"
    using PDFSecurity_R234_success [OF v, of Inr ex_doc ex_tape]
    by (auto simp: ex_opts_def default_password_def owner_or_user_def
        has_invalid_character_def js_def)
  then show ?thesis by (simp add: ex_security_def)
qed

lemma no_password_no_invalid:
  "\<not> truthy_password pw \<Longrightarrow> \<not> has_invalid_character (default_password pw)"
  by (cases pw) (simp_all add: default_password_def has_invalid_character_def)

lemma PDFSecurity_invalid_iff:
  assumes "version_of (pdfVersion opts) \<noteq> 5"
  shows "fst (PDFSecurity saslprep doc opts rng) = Inl InvalidPasswordCharacters \<longleftrightarrow>
           has_invalid_character (default_password (userPassword opts))
           \<or> has_invalid_character (owner_or_user opts)"
  using assms no_password_no_invalid [of "userPassword opts"]
    no_password_no_invalid [of "ownerPassword opts"]
  by (auto simp: PDFSecurity_def setupEncryption_def setupEncryptionV1V2V4_def Let_def
      processPasswordR2R3R4_eq getUserPasswordR3R4_eq getUserPasswordR2_eq owner_or_user_def
      split: if_splits sum.splits)

text \<open>
  Claim C4, as stated, fails: the constructor reads only the first 32 code units of a
  password. With the user password of 32 letters \<^verbatim>\<open>a\<close> followed by U+0100 and
  \<^verbatim>\<open>pdfVersion\<close> 1.3, the password contains a code unit above \<^verbatim>\<open>0xff\<close> and the
  constructor does not raise the invalid-password error.
\<close>

theorem invalid_character_after_32_counterexample:
  "contains_wide_character (default_password (userPassword long_password_opts))
   \<and> fst (PDFSecurity Inr ex_doc long_password_opts ex_tape) \<noteq> Inl InvalidPasswordCharacters"
proof -
  have v: "version_of (pdfVersion long_password_opts) \<noteq> 5"
    by (simp add: long_password_opts_def version_of_def)
  have "\<not> has_invalid_character (default_password (userPassword long_password_opts))"
    and "\<not> has_invalid_character (owner_or_user long_password_opts)"
    by (simp_all add: long_password_opts_def long_password_def default_password_def
        owner_or_user_def has_invalid_character_def list_ex_iff)
  then have "fst (PDFSecurity Inr ex_doc long_password_opts ex_tape) \<noteq> Inl InvalidPasswordCharacters"
    using PDFSecurity_invalid_iff [OF v] by simp
  moreover have "contains_wide_character (default_password (userPassword long_password_opts))"
    by (simp add: long_password_opts_def long_password_def default_password_def
        contains_wide_character_def list_ex_iff)
  ultimately show ?thesis by simp
qed

text \<open>
  Claim C4, amended. For every configuration of revisions 2 to 4 (every \<^verbatim>\<open>pdfVersion\<close>
  but 1.7ext3), constructing the handler raises the invalid-password error if and only
  if one of the first 32 code units of the user password, or of the owner password when
  one is given, is above \<^verbatim>\<open>0xff\<close>. For every password, \<^verbatim>\<open>processPasswordR2R3R4\<close>
  raises that error under the same condition and otherwise returns exactly 32 bytes: the
  first \<open>min(length, 32)\<close> character codes followed by the first bytes of the padding
  constant.
\<close>

theorem invalid_password_iff_in_first_32:
  assumes "version_of (pdfVersion opts) \<noteq> 5"
  shows "(fst (PDFSecurity saslprep doc opts rng) = Inl InvalidPasswordCharacters \<longleftrightarrow>
            has_invalid_character (default_password (userPassword opts))
            \<or> has_invalid_character (owner_or_user opts))
    \<and> processPasswordR2R3R4 pw =
          (if has_invalid_character (default_password pw) then Inl InvalidPasswordCharacters
           else Inr (map ucast (take 32 (default_password pw))
                       @ take (32 - length (default_password pw)) PASSWORD_PADDING))
    \<and> length (map ucast (take 32 (default_password pw)) :: bytes)
          = min (length (default_password pw)) 32
    \<and> length (map ucast (take 32 (default_password pw))
                 @ take (32 - length (default_password pw)) PASSWORD_PADDING :: bytes) = 32"
  using PDFSecurity_invalid_iff [OF assms, of saslprep doc rng]
    processPasswordR2R3R4_eq [of pw] length_spec_padded [of "default_password pw"]
  by (simp add: spec_padded_def min.commute)

theorem invalid_password_iff_in_first_32_witness:
  "version_of (pdfVersion (ex_opts ''1.3'')) \<noteq> 5
   \<and> fst (PDFSecurity Inr ex_doc (ex_opts ''1.3'') ex_tape) \<noteq> Inl InvalidPasswordCharacters
   \<and> processPasswordR2R3R4 (Some (js ''test'')) =
        Inr [0x74, 0x65, 0x73, 0x74, 0x28, 0xbf, 0x4e, 0x5e, 0x4e, 0x75, 0x8a, 0x41, 0x64,
             0x00, 0x4e, 0x56, 0xff, 0xfa, 0x01, 0x08, 0x2e, 0x2e, 0x00, 0xb6, 0xd0, 0x68,
             0x3e, 0x80, 0x2f, 0x0c, 0xa9, 0xfe]
   \<and> processPasswordR2R3R4 (Some (js ''password'' @ [0x100])) = Inl InvalidPasswordCharacters"
proof -
  have v: "version_of (pdfVersion (ex_opts ''1.3'')) \<noteq> 5"
    by (simp add: ex_opts_def version_of_def)
  show ?thesis
    using v invalid_password_iff_in_first_32 [OF v, of Inr ex_doc ex_tape "Some (js ''test'')"]
      invalid_password_iff_in_first_32 [OF v, of Inr ex_doc ex_tape
        "Some (js ''password'' @ [0x100])"]
    by (simp add: ex_opts_def default_password_def owner_or_user_def has_invalid_character_def
        js_def PASSWORD_PADDING_def)
qed

section \<open>Owner entry and file key of revisions 2 to 4\<close>

lemma byte_mask: "(0xff :: 32 word) = mask 8"
  by (simp add: mask_eq_exp_minus_1)

lemma int32_byte_eq: "k \<le> 24 \<Longrightarrow> int32_byte w k = ucast (drop_bit k w)"
  unfolding int32_byte_def byte_mask
  by (rule bit_word_eqI) (auto simp: bit_simps)

lemma length_funpow_md5Hash: "0 < n \<Longrightarrow> length ((md5Hash ^^ n) x) = 16"
  by (cases n) (simp_all add: length_md5Hash)

lemma length_funpow_md5Hash_after:
  "length (x :: bytes) = 16 \<Longrightarrow> length (((\<lambda>k. md5Hash (h k)) ^^ n) x) = 16"
  by (induction n) (simp_all add: length_md5Hash)

lemma permBytes_le32:
  "[int32_byte w 0, int32_byte w 8, int32_byte w 16, int32_byte w 24] = le32 w"
  by (simp add: int32_byte_eq le32_def)

lemma xorKey_of_full:
  "length key = keyLen \<Longrightarrow> xorKey_of keyLen key i = map (\<lambda>b. b XOR of_nat i) key"
  by (auto simp: xorKey_of_def intro: nth_equalityI)

lemma xorKey_of_zero: "length key = keyLen \<Longrightarrow> xorKey_of keyLen key 0 = key"
  by (simp add: xorKey_of_full)

lemma funpow_comp_shift: "((f \<circ> g) ^^ Suc n) x = f (((g \<circ> f) ^^ n) (g x))"
  by (induction n arbitrary: x) simp_all

lemma getOwnerPasswordR2R3R4_spec:
  assumes "kb div 8 \<le> 16"
  shows "getOwnerPasswordR2R3R4 r kb pu po = spec_ownerEntry r kb pu po"
proof -
  let ?n = "if 3 \<le> r then 51 else (1::nat)"
  let ?key = "take (kb div 8) ((md5Hash ^^ ?n) po)"
  have len: "length ?key = kb div 8"
    using assms by (simp add: length_funpow_md5Hash)
  have d: "(md5Hash ^^ 51) po = (md5Hash ^^ 50) (md5Hash po)"
    by (simp only: funpow_swap1 [symmetric] funpow.simps o_apply eval_nat_numeral)
  show ?thesis
  proof (cases "3 \<le> r")
    case True
    with len have "\<And>i. xorKey_of (kb div 8) (take (kb div 8) ((md5Hash ^^ 51) po)) i
        = map (\<lambda>b. b XOR of_nat i) (take (kb div 8) ((md5Hash ^^ 51) po))"
      by (intro xorKey_of_full) simp
    with True show ?thesis
      by (simp add: getOwnerPasswordR2R3R4_def spec_ownerEntry_def Let_def
          foldl_const_funpow d)
  next
    case False
    with len have "xorKey_of (kb div 8) (take (kb div 8) (md5Hash po)) 0
        = take (kb div 8) (md5Hash po)"
      by (intro xorKey_of_zero) simp
    with False show ?thesis
      by (simp add: getOwnerPasswordR2R3R4_def spec_ownerEntry_def Let_def)
  qed
qed

lemma length_getOwnerPasswordR2R3R4:
  "length (getOwnerPasswordR2R3R4 r kb pu po) = length pu"
  by (simp add: getOwnerPasswordR2R3R4_def Let_def length_foldl_rc4)

lemma getEncryptionKeyR2R3R4_spec:
  "getEncryptionKeyR2R3R4 r kb documentId pu ownerEntry perms
     = spec_fileKey r kb pu ownerEntry perms documentId"
proof -
  let ?input = "pu @ ownerEntry @ le32 perms @ documentId"
  have f: "(\<lambda>key. take (kb div 8) (md5Hash key)) = take (kb div 8) \<circ> md5Hash"
    by (simp add: fun_eq_iff)
  have g: "(\<lambda>k. md5Hash (take (kb div 8) k)) = md5Hash \<circ> take (kb div 8)"
    by (simp add: fun_eq_iff)
  have s: "((take (kb div 8) \<circ> md5Hash) ^^ 51) ?input
       = take (kb div 8) (((md5Hash \<circ> take (kb div 8)) ^^ 50) (md5Hash ?input))"
    using funpow_comp_shift [where f = "take (kb div 8)" and g = md5Hash and n = 50
        and x = ?input] by simp
  show ?thesis
    by (cases "3 \<le> r")
      (simp_all add: getEncryptionKeyR2R3R4_def spec_fileKey_def Let_def concatBytes_def
        permBytes_le32 foldl_const_funpow f g s)
qed

lemma length_spec_fileKey:
  "kb div 8 \<le> 16 \<Longrightarrow> length (spec_fileKey r kb pu ownerEntry perms fileID1) = kb div 8"
  by (cases "3 \<le> r")
    (simp_all add: spec_fileKey_def Let_def length_md5Hash length_funpow_md5Hash_after)

text \<open>
  Claim C3. For every configuration of revisions 2 to 4 that the constructor accepts,
  the O entry is: the MD5 digest of the padded owner password (the padded user password
  when no owner password is given), hashed 50 more times when R is at least 3; the key is
  the first \<open>keyBits / 8\<close> bytes of the digest; O is the RC4 encryption of the padded user
  password under the key when R is 2, and the result of the 20 RC4 rounds
  \<open>i = 0, ..., 19\<close> under the key with every byte XORed with \<open>i\<close> when R is at least 3.
  O is exactly 32 bytes long.
\<close>

theorem owner_entry_R2R3R4:
  assumes "PDFSecurity saslprep doc opts rng = (Inr sec, rng')"
    and "version_of (pdfVersion opts) \<noteq> 5"
  shows "O_entry (dictionary sec) =
           spec_ownerEntry (R (dictionary sec)) (keyBits sec)
             (spec_padded (default_password (userPassword opts)))
             (spec_padded (owner_or_user opts))
    \<and> length (O_entry (dictionary sec)) = 32
    \<and> (R (dictionary sec), keyBits sec) \<in> {(2, 40), (3, 128), (4, 128)}"
proof -
  note inv = PDFSecurity_R234_inv [OF assms]
  have kb: "keyBits sec div 8 \<le> 16"
    using inv(3) by (simp split: if_splits)
  have "(R (dictionary sec), keyBits sec) \<in> {(2, 40), (3, 128), (4, 128)}"
    using inv(2,3,4) assms(2) version_of_cases [of "pdfVersion opts"] by auto
  moreover have "length (O_entry (dictionary sec)) = 32"
    using inv(7) by (simp add: length_getOwnerPasswordR2R3R4 length_spec_padded)
  moreover have "O_entry (dictionary sec) =
           spec_ownerEntry (R (dictionary sec)) (keyBits sec)
             (spec_padded (default_password (userPassword opts)))
             (spec_padded (owner_or_user opts))"
    using inv(7) by (simp only: getOwnerPasswordR2R3R4_spec [OF kb])
  ultimately show ?thesis by simp
qed

theorem owner_entry_R2R3R4_witness:
  "PDFSecurity Inr ex_doc (ex_opts ''1.4'') ex_tape = (Inr (ex_security ''1.4''), ex_tape)
   \<and> version_of (pdfVersion (ex_opts ''1.4'')) \<noteq> 5
   \<and> O_entry (dictionary (ex_security ''1.4'')) =
        spec_ownerEntry 3 128 (spec_padded (js ''test'')) (spec_padded (js ''test''))
   \<and> length (O_entry (dictionary (ex_security ''1.4''))) = 32"
proof -
  have v: "version_of (Some ''1.4'') \<noteq> 5" by (simp add: version_of_def)
  have v': "version_of (pdfVersion (ex_opts ''1.4'')) \<noteq> 5"
    by (simp add: ex_opts_def version_of_def)
  note ok = ex_security_ok [OF v]
  have r: "R (dictionary (ex_security ''1.4'')) = 3" "keyBits (ex_security ''1.4'') = 128"
    using PDFSecurity_R234_inv(2,3,4) [OF ok v'] by (simp_all add: ex_opts_def version_of_def)
  have "O_entry (dictionary (ex_security ''1.4'')) =
          spec_ownerEntry (R (dictionary (ex_security ''1.4''))) (keyBits (ex_security ''1.4''))
            (spec_padded (default_password (userPassword (ex_opts ''1.4''))))
            (spec_padded (owner_or_user (ex_opts ''1.4'')))"
    and l: "length (O_entry (dictionary (ex_security ''1.4''))) = 32"
    using owner_entry_R2R3R4 [OF ok v'] by blast+
  then have "O_entry (dictionary (ex_security ''1.4'')) =
          spec_ownerEntry 3 128 (spec_padded (js ''test'')) (spec_padded (js ''test''))"
    using r by (simp add: ex_opts_def default_password_def owner_or_user_def)
  with ok v' l show ?thesis by blast
qed

text \<open>
  Claim C2. For every configuration of revisions 2 to 4 that the constructor accepts,
  the file encryption key is computed from the MD5 digest of the padded user password,
  the O entry, the four bytes of the permissions, least significant first, and the file
  identifier; when R is at least 3 the digest, cut to \<open>keyBits / 8\<close> bytes, is hashed again
  50 times; the key is the first \<open>keyBits / 8\<close> bytes of the result, and has that length.
\<close>

theorem file_key_R2R3R4:
  assumes "PDFSecurity saslprep doc opts rng = (Inr sec, rng')"
    and "version_of (pdfVersion opts) \<noteq> 5"
  shows "encryptionKey sec =
           spec_fileKey (R (dictionary sec)) (keyBits sec)
             (spec_padded (default_password (userPassword opts)))
             (O_entry (dictionary sec)) (word_of_int (P (dictionary sec))) (doc_id doc)
    \<and> length (encryptionKey sec) = keyBits sec div 8
    \<and> P (dictionary sec) = sint (permissions_of (version sec) opts)"
proof -
  note inv = PDFSecurity_R234_inv [OF assms]
  have kb: "keyBits sec div 8 \<le> 16"
    using inv(3) by (simp split: if_splits)
  have p: "P (dictionary sec) = sint (permissions_of (version sec) opts)"
    using inv(9) by (simp add: permissions_of_def)
  have k: "encryptionKey sec =
           spec_fileKey (R (dictionary sec)) (keyBits sec)
             (spec_padded (default_password (userPassword opts)))
             (O_entry (dictionary sec)) (permissions_of (version sec) opts) (doc_id doc)"
    using inv(8) by (simp add: getEncryptionKeyR2R3R4_spec permissions_of_def)
  show ?thesis
    using k p length_spec_fileKey [OF kb] by simp
qed

theorem file_key_R2R3R4_witness:
  "PDFSecurity Inr ex_doc (ex_opts ''1.3'') ex_tape = (Inr (ex_security ''1.3''), ex_tape)
   \<and> version_of (pdfVersion (ex_opts ''1.3'')) \<noteq> 5
   \<and> encryptionKey (ex_security ''1.3'') =
        take 5 (md5Hash (spec_padded (js ''test'') @ O_entry (dictionary (ex_security ''1.3''))
                  @ [0xc0, 0xff, 0xff, 0xff] @ doc_id ex_doc))
   \<and> length (encryptionKey (ex_security ''1.3'')) = 5"
proof -
  have v: "version_of (Some ''1.3'') \<noteq> 5" by (simp add: version_of_def)
  have v': "version_of (pdfVersion (ex_opts ''1.3'')) \<noteq> 5"
    by (simp add: ex_opts_def version_of_def)
  note ok = ex_security_ok [OF v]
  have r: "R (dictionary (ex_security ''1.3'')) = 2" "keyBits (ex_security ''1.3'') = 40"
    "version (ex_security ''1.3'') = 1"
    using PDFSecurity_R234_inv(2,3,4) [OF ok v'] by (simp_all add: ex_opts_def version_of_def)
  have p: "le32 (getPermissionsR2 None) = [0xc0, 0xff, 0xff, 0xff]"
    by (simp add: getPermissionsR2_def default_permissions_def empty_permissions_def
        or_if_def le32_def Let_def)
  have "encryptionKey (ex_security ''1.3'') =
           spec_fileKey (R (dictionary (ex_security ''1.3''))) (keyBits (ex_security ''1.3''))
             (spec_padded (default_password (userPassword (ex_opts ''1.3''))))
             (O_entry (dictionary (ex_security ''1.3'')))
             (word_of_int (P (dictionary (ex_security ''1.3'')))) (doc_id ex_doc)"
    and l: "length (encryptionKey (ex_security ''1.3'')) = keyBits (ex_security ''1.3'') div 8"
    and "P (dictionary (ex_security ''1.3'')) =
           sint (permissions_of (version (ex_security ''1.3'')) (ex_opts ''1.3''))"
    using file_key_R2R3R4 [OF ok v'] by blast+
  then have "encryptionKey (ex_security ''1.3'') =
          take 5 (md5Hash (spec_padded (js ''test'') @ O_entry (dictionary (ex_security ''1.3''))
                    @ [0xc0, 0xff, 0xff, 0xff] @ doc_id ex_doc))"
    using r p by (simp add: ex_opts_def default_password_def spec_fileKey_def permissions_of_def)
  moreover from l r have "length (encryptionKey (ex_security ''1.3'')) = 5" by simp
  ultimately show ?thesis using ok v' by blast
qed

section \<open>The constructor under version 5\<close>

lemma generateRandomWordArray_after:
  "generateRandomWordArray n (tape_after k r) = (tape_bytes r k (k + n), tape_after (k + n) r)"
proof -
  have "map (\<lambda>i. r (i + k)) [0..<n] = map r [k..<k + n]"
    by (rule nth_equalityI) (simp_all add: add.commute)
  then show ?thesis
    by (simp add: generateRandomWordArray_def randomBytes_def tape_after_def tape_bytes_def
        add.assoc add.commute [of n k])
qed

lemma tape_after_0: "tape_after 0 r = r"
  by (simp add: tape_after_def)

lemma generateRandomWordArray_start:
  "generateRandomWordArray n r = (tape_bytes r 0 n, tape_after n r)"
  using generateRandomWordArray_after [of n 0 r] by (simp add: tape_after_0)

lemma length_tape_bytes: "length (tape_bytes r a b) = b - a"
  by (simp add: tape_bytes_def)

lemma valid_key_size_sha256: "valid_key_size (sha256Hash x)"
  by (simp add: valid_key_size_def length_sha256Hash)

lemma valid_key_size_md5: "valid_key_size (md5Hash x)"
  by (simp add: valid_key_size_def length_md5Hash)

lemma getUserPasswordR5_eq:
  "getUserPasswordR5 pw (tape_after k r) =
     (sha256Hash (pw @ tape_bytes r k (k + 8)) @ tape_bytes r k (k + 8)
        @ tape_bytes r (k + 8) (k + 16), tape_after (k + 16) r)"
  by (simp add: getUserPasswordR5_def generateRandomWordArray_after concatBytes_def add.assoc)

lemma getOwnerPasswordR5_eq:
  "getOwnerPasswordR5 pw u (tape_after k r) =
     (sha256Hash (pw @ tape_bytes r k (k + 8) @ u) @ tape_bytes r k (k + 8)
        @ tape_bytes r (k + 8) (k + 16), tape_after (k + 16) r)"
  by (simp add: getOwnerPasswordR5_def generateRandomWordArray_after concatBytes_def add.assoc)

lemma slice_key_salt:
  "length h = 32 \<Longrightarrow> length vs = 8 \<Longrightarrow> length ks = 8 \<Longrightarrow> slice 40 48 (h @ vs @ ks) = ks"
  by (simp add: slice_def)

text \<open>The 16-byte block that \<^verbatim>\<open>getEncryptedPermissionsR5\<close> encrypts.\<close>

lemma getEncryptedPermissionsR5_eq:
  "getEncryptedPermissionsR5 perms key (tape_after k r) =
     (aesEcbEncrypt (le32 perms @ [0xff, 0xff, 0xff, 0xff] @ [0x54, 0x61, 0x64, 0x62]
                       @ tape_bytes r k (k + 4)) key,
      tape_after (k + 4) r)"
  by (simp add: getEncryptedPermissionsR5_def generateRandomWordArray_after Let_def
      int32_byte_eq le32_def numeral_eq_Suc)

lemma PDFSecurity_R5_inv:
  assumes ok: "PDFSecurity saslprep doc opts rng = (Inr sec, rng')"
    and v: "version_of (pdfVersion opts) = 5"
  shows "\<exists>pwU pwO ue oe perms.
      processPasswordR5 saslprep (userPassword opts) = Inr pwU
    \<and> (if truthy_password (ownerPassword opts)
        then processPasswordR5 saslprep (ownerPassword opts)
        else Inr pwU) = Inr pwO
    \<and> rng' = tape_after 68 rng
    \<and> version sec = 5 \<and> keyBits sec = 256
    \<and> encryptionKey sec = tape_bytes rng 0 32
    \<and> U (dictionary sec) =
         sha256Hash (pwU @ tape_bytes rng 32 40) @ tape_bytes rng 32 40 @ tape_bytes rng 40 48
    \<and> UE (dictionary sec) = Some ue
    \<and> aesCbcEncrypt (encryptionKey sec) (sha256Hash (pwU @ tape_bytes rng 40 48))
         (replicate 16 0) False = Inr ue
    \<and> O_entry (dictionary sec) =
         sha256Hash (pwO @ tape_bytes rng 48 56 @ U (dictionary sec))
           @ tape_bytes rng 48 56 @ tape_bytes rng 56 64
    \<and> OE (dictionary sec) = Some oe
    \<and> aesCbcEncrypt (encryptionKey sec)
         (sha256Hash (pwO @ tape_bytes rng 56 64 @ U (dictionary sec)))
         (replicate 16 0) False = Inr oe
    \<and> Perms (dictionary sec) = Some perms
    \<and> aesEcbEncrypt (le32 (getPermissionsR3 (permissions opts)) @ [0xff, 0xff, 0xff, 0xff]
                       @ [0x54, 0x61, 0x64, 0x62] @ tape_bytes rng 64 68)
         (encryptionKey sec) = Inr perms
    \<and> P (dictionary sec) = sint (getPermissionsR3 (permissions opts))"
proof -
  have s: "setupEncryptionV5 saslprep opts rng = (Inr sec, rng')"
    using ok v by (simp add: PDFSecurity_def setupEncryption_def split: if_splits)
  have k: "getEncryptionKeyR5 rng = (tape_bytes rng 0 32, tape_after 32 rng)"
    by (simp add: getEncryptionKeyR5_def generateRandomWordArray_start)
  show ?thesis
    using s
    by (auto simp: setupEncryptionV5_def Let_def k getUserPasswordR5_eq getOwnerPasswordR5_eq
        getEncryptedPermissionsR5_eq getUserEncryptionKeyR5_def getOwnerEncryptionKeyR5_def
        slice_key_salt length_sha256Hash length_tape_bytes concatBytes_def
        split: sum.splits if_splits prod.splits)
qed

lemma PDFSecurity_version:
  assumes "PDFSecurity saslprep doc opts rng = (Inr sec, rng')"
  shows "version sec = version_of (pdfVersion opts)"
proof (cases "version_of (pdfVersion opts) = 5")
  case True
  with PDFSecurity_R5_inv [OF assms True] show ?thesis by auto
next
  case False
  with PDFSecurity_R234_inv(2) [OF assms False] show ?thesis by simp
qed

lemma PDFSecurity_key_shape:
  assumes "PDFSecurity saslprep doc opts rng = (Inr sec, rng')"
  shows "(version sec, keyBits sec, length (encryptionKey sec))
           \<in> {(1, 40, 5), (2, 128, 16), (4, 128, 16), (5, 256, 32)}"
proof (cases "version_of (pdfVersion opts) = 5")
  case True
  with PDFSecurity_R5_inv [OF assms True] show ?thesis
    by (auto simp: length_tape_bytes)
next
  case False
  note inv = PDFSecurity_R234_inv [OF assms False]
  have "length (encryptionKey sec) = keyBits sec div 8"
    using inv(3,8) length_spec_fileKey [of "keyBits sec"]
    by (simp add: getEncryptionKeyR2R3R4_spec split: if_splits)
  then show ?thesis
    using inv(2,3) False version_of_cases [of "pdfVersion opts"] by auto
qed

lemma PDFSecurity_R5_success:
  assumes "version_of (pdfVersion opts) = 5"
    and "truthy_password (ownerPassword opts) \<or> truthy_password (userPassword opts)"
    and "processPasswordR5 saslprep (userPassword opts) = Inr pwU"
    and "(if truthy_password (ownerPassword opts)
          then processPasswordR5 saslprep (ownerPassword opts) else Inr pwU) = Inr pwO"
  shows "\<exists>sec. PDFSecurity saslprep doc opts rng = (Inr sec, tape_after 68 rng)"
proof -
  let ?key = "tape_bytes rng 0 32"
  have k: "getEncryptionKeyR5 rng = (?key, tape_after 32 rng)"
    by (simp add: getEncryptionKeyR5_def generateRandomWordArray_start)
  have vk: "valid_key_size ?key"
    by (simp add: valid_key_size_def length_tape_bytes)
  have cbc: "\<And>x. \<exists>c. aesCbcEncrypt ?key (sha256Hash x) (replicate 16 0) False = Inr c"
    using aesCbcEncrypt_unpadded [OF valid_key_size_sha256, of "replicate 16 0" ?key]
    by (auto simp: length_tape_bytes)
  have ecb: "\<exists>c. aesEcbEncrypt x ?key = Inr c" if "length x = 16" for x
    using aesEcbEncrypt_length [OF vk, of x] that by auto
  obtain ue where ue: "aesCbcEncrypt ?key (sha256Hash (pwU @ tape_bytes rng 40 48))
      (replicate 16 0) False = Inr ue"
    using cbc by blast
  let ?U = "sha256Hash (pwU @ tape_bytes rng 32 40) @ tape_bytes rng 32 40 @ tape_bytes rng 40 48"
  obtain oe where oe: "aesCbcEncrypt ?key (sha256Hash (pwO @ tape_bytes rng 56 64 @ ?U))
      (replicate 16 0) False = Inr oe"
    using cbc by blast
  obtain pe where pe: "aesEcbEncrypt (le32 (getPermissionsR3 (permissions opts))
      @ [0xff, 0xff, 0xff, 0xff] @ [0x54, 0x61, 0x64, 0x62] @ tape_bytes rng 64 68) ?key = Inr pe"
    using ecb [of "le32 (getPermissionsR3 (permissions opts))
      @ [0xff, 0xff, 0xff, 0xff] @ [0x54, 0x61, 0x64, 0x62] @ tape_bytes rng 64 68"]
    by (auto simp: length_le32 length_tape_bytes)
  show ?thesis
    using assms ue oe pe
    by (auto simp: PDFSecurity_def setupEncryption_def setupEncryptionV5_def Let_def k
        getUserPasswordR5_eq getOwnerPasswordR5_eq getEncryptedPermissionsR5_eq
        getUserEncryptionKeyR5_def getOwnerEncryptionKeyR5_def slice_key_salt
        length_sha256Hash length_tape_bytes concatBytes_def split: if_splits)
qed

section \<open>The per-object encryptor\<close>

lemma int32_byte_of_int:
  "k \<le> 24 \<Longrightarrow> int32_byte (word_of_int n) k = (word_of_int (n div 2 ^ k) :: byte)"
  unfolding int32_byte_def byte_mask
  by (rule bit_word_eqI) (auto simp: bit_simps simp flip: drop_bit_eq_div)

lemma suffix_le_bytes:
  "[int32_byte (word_of_int n) 0, int32_byte (word_of_int n) 8, int32_byte (word_of_int n) 16,
    int32_byte (word_of_int g) 0, int32_byte (word_of_int g) 8]
   = le_bytes 3 n @ le_bytes 2 g"
  by (simp add: int32_byte_of_int le_bytes_def numeral_3_eq_3 numeral_2_eq_2)

lemma getEncryptFn_rc4:
  assumes "version sec = 1 \<or> version sec = 2"
  shows "getEncryptFn sec n g rng =
           (\<lambda>buffer r. (Inr (rc4 buffer
                          (spec_objectKey (keyBits sec) (encryptionKey sec) n g [])), r), rng)"
  using assms
  by (auto simp: getEncryptFn_def Let_def suffix_le_bytes concatBytes_def spec_objectKey_def)

lemma getEncryptFn_aes:
  assumes "version sec = 4 \<and> keyBits sec = 128 \<or> version sec = 5"
  shows "getEncryptFn sec n g rng =
           (\<lambda>buffer r.
              (case aesCbcEncrypt buffer (spec_aesKey sec n g) (tape_bytes rng 0 16) True of
                 Inl e \<Rightarrow> Inl e
               | Inr encrypted \<Rightarrow> Inr (tape_bytes rng 0 16 @ encrypted), r),
            tape_after 16 rng)"
  using assms
  by (auto simp: getEncryptFn_def Let_def suffix_le_bytes concatBytes_def spec_objectKey_def
      spec_aesKey_def sAlT_def generateRandomWordArray_start length_md5Hash
      cong: sum.case_cong)

text \<open>
  Claim C1. For every handler the constructor returns and all object and generation
  numbers: under versions 1 and 2 the function that \<^verbatim>\<open>getEncryptFn\<close> returns is RC4 under
  the first \<open>min(16, keyBits / 8 + 5)\<close> bytes of the MD5 digest of the file key followed by
  the three low bytes of the object number and the two low bytes of the generation
  number, least significant first, and no random byte is drawn; under version 4 it is
  AES-CBC under the MD5 digest of the same input followed by \<^verbatim>\<open>sAlT\<close>, cut the same way;
  under version 5 it is AES-CBC under the file key itself.
\<close>

theorem per_object_key:
  assumes "PDFSecurity saslprep doc opts rng0 = (Inr sec, rng1)"
  shows "(if version sec = 1 \<or> version sec = 2 then
            getEncryptFn sec n g rng =
              (\<lambda>buffer r.
                 (Inr (rc4 buffer
                    (take (min 16 (keyBits sec div 8 + 5))
                       (md5Hash (encryptionKey sec @ le_bytes 3 n @ le_bytes 2 g)))), r),
               rng)
          else
            getEncryptFn sec n g rng =
              (\<lambda>buffer r.
                 (case aesCbcEncrypt buffer
                         (if version sec = 4
                          then take (min 16 (keyBits sec div 8 + 5))
                                 (md5Hash (encryptionKey sec @ le_bytes 3 n @ le_bytes 2 g
                                    @ [0x73, 0x41, 0x6c, 0x54]))
                          else encryptionKey sec)
                         (tape_bytes rng 0 16) True of
                    Inl e \<Rightarrow> Inl e
                  | Inr encrypted \<Rightarrow> Inr (tape_bytes rng 0 16 @ encrypted), r),
               tape_after 16 rng))
    \<and> version sec = version_of (pdfVersion opts)"
proof -
  note shape = PDFSecurity_key_shape [OF assms]
  show ?thesis
  proof (cases "version sec = 1 \<or> version sec = 2")
    case True
    then show ?thesis
      using getEncryptFn_rc4 [OF True, of n g rng] PDFSecurity_version [OF assms]
      by (simp add: spec_objectKey_def)
  next
    case False
    with shape have a: "version sec = 4 \<and> keyBits sec = 128 \<or> version sec = 5"
      by auto
    show ?thesis
      using False getEncryptFn_aes [OF a, of n g rng] PDFSecurity_version [OF assms]
      by (simp add: spec_aesKey_def spec_objectKey_def sAlT_def)
  qed
qed

lemma processPasswordR5_test:
  "processPasswordR5 Inr (Some (js ''test'')) = Inr [0x74, 0x65, 0x73, 0x74]"
  by (simp add: processPasswordR5_def default_password_def js_def is_surrogate_def utf8_cp_def)

lemma ex_security_ok_v5:
  "PDFSecurity Inr ex_doc (ex_opts ''1.7ext3'') ex_tape
     = (Inr (ex_security ''1.7ext3''), tape_after 68 ex_tape)"
proof -
  have v: "version_of (pdfVersion (ex_opts ''1.7ext3'')) = 5"
    by (simp add: ex_opts_def version_of_def)
  obtain sec where "PDFSecurity Inr ex_doc (ex_opts ''1.7ext3'') ex_tape
      = (Inr sec, tape_after 68 ex_tape)"
    using PDFSecurity_R5_success [OF v, of Inr "[0x74, 0x65, 0x73, 0x74]"
        "[0x74, 0x65, 0x73, 0x74]" ex_doc ex_tape] processPasswordR5_test
    by (auto simp: ex_opts_def js_def)
  then show ?thesis by (simp add: ex_security_def)
qed

theorem per_object_key_witness:
  "getEncryptFn (ex_security ''1.3'') 1 0 ex_tape =
     (\<lambda>buffer r.
        (Inr (rc4 buffer
           (take 10 (md5Hash (encryptionKey (ex_security ''1.3'') @ [1, 0, 0, 0, 0])))), r),
      ex_tape)
   \<and> version (ex_security ''1.3'') = 1"
proof -
  have v: "version_of (Some ''1.3'') \<noteq> 5" by (simp add: version_of_def)
  have l: "le_bytes 3 1 @ le_bytes 2 0 = [1, 0, 0, 0, 0]"
    by (simp add: le_bytes_def numeral_3_eq_3 numeral_2_eq_2)
  have s: "(version (ex_security ''1.3''), keyBits (ex_security ''1.3''),
            length (encryptionKey (ex_security ''1.3'')))
             \<in> {(1, 40, 5), (2, 128, 16), (4, 128, 16), (5, 256, 32)}"
    by (rule PDFSecurity_key_shape [OF ex_security_ok [OF v]])
  have w: "version (ex_security ''1.3'') = 1"
    using per_object_key [OF ex_security_ok [OF v], of 1 0 ex_tape]
    by (simp add: ex_opts_def version_of_def)
  with s have k: "keyBits (ex_security ''1.3'') = 40" by auto
  show ?thesis
    using per_object_key [OF ex_security_ok [OF v], of 1 0 ex_tape] w k l by simp
qed

section \<open>The permissions entry\<close>

text \<open>
  Claim C8. For every permissions object and every handler the constructor returns under
  versions 2, 4 and 5 (revision 3 and later, \<^verbatim>\<open>pdfVersion\<close> 1.4 and later), the P entry
  is the number held by the 32-bit word that \<^verbatim>\<open>getPermissionsR3\<close> computes, a negative
  32-bit signed integer. In that word bits 1 and 2 are 0 and bits 7 and 8 are 1 (bit \<open>k\<close>
  of the PDF numbering is \<open>bit _ (k - 1)\<close>). Bit 3 is set exactly when printing is
  \<^verbatim>\<open>"lowResolution"\<close> or \<^verbatim>\<open>"highResolution"\<close> and bit 12 exactly when it is
  \<^verbatim>\<open>"highResolution"\<close>, so that low resolution sets bit 3 only. Bits 4, 5 and 6 follow
  modifying, copying and annotating; bit 9 follows fillingForms, bit 10
  contentAccessibility and bit 11 documentAssembly. All bits from 13 to 32 are set.
\<close>

theorem permissions_R3_bits:
  assumes "PDFSecurity saslprep doc opts rng = (Inr sec, rng')"
    and "version sec \<noteq> 1"
  shows "P (dictionary sec) = sint (getPermissionsR3 (permissions opts))
   \<and> P (dictionary sec) < 0 \<and> - (2 ^ 31) \<le> P (dictionary sec)
   \<and> \<not> bit (getPermissionsR3 (permissions opts)) 0
   \<and> \<not> bit (getPermissionsR3 (permissions opts)) 1
   \<and> bit (getPermissionsR3 (permissions opts)) 6
   \<and> bit (getPermissionsR3 (permissions opts)) 7
   \<and> (bit (getPermissionsR3 (permissions opts)) 2 \<longleftrightarrow>
        printing (default_permissions (permissions opts)) = JStr (js ''lowResolution'')
        \<or> printing (default_permissions (permissions opts)) = JStr (js ''highResolution''))
   \<and> (bit (getPermissionsR3 (permissions opts)) 11 \<longleftrightarrow>
        printing (default_permissions (permissions opts)) = JStr (js ''highResolution''))
   \<and> (bit (getPermissionsR3 (permissions opts)) 3 \<longleftrightarrow>
        truthy (modifying (default_permissions (permissions opts))))
   \<and> (bit (getPermissionsR3 (permissions opts)) 4 \<longleftrightarrow>
        truthy (copying (default_permissions (permissions opts))))
   \<and> (bit (getPermissionsR3 (permissions opts)) 5 \<longleftrightarrow>
        truthy (annotating (default_permissions (permissions opts))))
   \<and> (bit (getPermissionsR3 (permissions opts)) 8 \<longleftrightarrow>
        truthy (fillingForms (default_permissions (permissions opts))))
   \<and> (bit (getPermissionsR3 (permissions opts)) 9 \<longleftrightarrow>
        truthy (contentAccessibility (default_permissions (permissions opts))))
   \<and> (bit (getPermissionsR3 (permissions opts)) 10 \<longleftrightarrow>
        truthy (documentAssembly (default_permissions (permissions opts))))
   \<and> getPermissionsR3 (permissions opts) AND 0xfffff000 = 0xfffff000"
proof -
  have p: "P (dictionary sec) = sint (getPermissionsR3 (permissions opts))"
  proof (cases "version_of (pdfVersion opts) = 5")
    case True
    from PDFSecurity_R5_inv [OF assms(1) True] show ?thesis by blast
  next
    case False
    from PDFSecurity_R234_inv(9) [OF assms(1) False] assms(2) show ?thesis by simp
  qed
  have lo: "- (2 ^ 31) \<le> sint (getPermissionsR3 (permissions opts))"
    using sint_ge [of "getPermissionsR3 (permissions opts)"] by simp
  show ?thesis
    using getPermissionsR3_bit_table [of "permissions opts"] p lo by simp
qed

theorem permissions_R3_bits_witness:
  "P (dictionary (ex_security ''1.4'')) = - 3904
   \<and> getPermissionsR3 (permissions (ex_opts ''1.4'')) = 0xfffff0c0
   \<and> \<not> bit (getPermissionsR3 (permissions (ex_opts ''1.4''))) 2
   \<and> bit (getPermissionsR3 (permissions (ex_opts ''1.4''))) 6"
proof -
  have v: "version_of (Some ''1.4'') \<noteq> 5" by (simp add: version_of_def)
  have w: "version (ex_security ''1.4'') \<noteq> 1"
    using PDFSecurity_version [OF ex_security_ok [OF v]]
    by (simp add: ex_opts_def version_of_def)
  have g: "getPermissionsR3 (permissions (ex_opts ''1.4'')) = 0xfffff0c0"
    by (simp add: ex_opts_def getPermissionsR3_def default_permissions_def
        empty_permissions_def or_if_def Let_def)
  have s: "sint (0xfffff0c0 :: 32 word) = - 3904"
    by simp
  show ?thesis
    using permissions_R3_bits [OF ex_security_ok [OF v] w] g s by simp
qed

section \<open>Length of the encrypted output\<close>

lemma ceil_div_16: "ceil_div (Suc n) 16 * 16 = 16 + n div 16 * 16"
proof -
  have "(n + 16) div 16 = n div 16 + 1"
    by (rule div_add_self2) simp
  then show ?thesis
    by (simp add: ceil_div_def add.commute)
qed

lemma valid_key_size_aesKey:
  assumes "PDFSecurity saslprep doc opts rng0 = (Inr sec, rng1)"
    and "version sec = 4 \<or> version sec = 5"
  shows "valid_key_size (spec_aesKey sec n g)"
  using PDFSecurity_key_shape [OF assms(1)] assms(2)
  by (auto simp: spec_aesKey_def spec_objectKey_def valid_key_size_def length_md5Hash)

lemma encryptFn_aes_result:
  assumes "PDFSecurity saslprep doc opts rng0 = (Inr sec, rng1)"
    and "version sec = 4 \<or> version sec = 5"
  shows "\<exists>c. aesCbcEncrypt buffer (spec_aesKey sec n g) (tape_bytes rng 0 16) True = Inr c
           \<and> length c = (length buffer div 16 + 1) * 16
           \<and> fst (getEncryptFn sec n g rng) buffer r = (Inr (tape_bytes rng 0 16 @ c), r)
           \<and> snd (getEncryptFn sec n g rng) = tape_after 16 rng"
proof -
  have a: "version sec = 4 \<and> keyBits sec = 128 \<or> version sec = 5"
    using PDFSecurity_key_shape [OF assms(1)] assms(2) by auto
  obtain c where c: "aesCbcEncrypt buffer (spec_aesKey sec n g) (tape_bytes rng 0 16) True = Inr c"
    and l: "length c = (length buffer div 16 + 1) * 16"
    using aesCbcEncrypt_padded [OF valid_key_size_aesKey [OF assms, of n g],
        of "tape_bytes rng 0 16" buffer]
    by (auto simp: length_tape_bytes)
  show ?thesis
    using c l by (simp add: getEncryptFn_aes [OF a])
qed

text \<open>
  Claim C6. For every handler the constructor returns and every input buffer of \<open>n\<close>
  bytes, the function returned by \<^verbatim>\<open>getEncryptFn\<close> returns (it raises nothing) exactly \<open>n\<close>
  bytes under versions 1 and 2, and exactly \<open>16 + ceil((n + 1) / 16) * 16\<close> bytes under
  versions 4 and 5.
\<close>

theorem encrypted_length:
  assumes "PDFSecurity saslprep doc opts rng0 = (Inr sec, rng1)"
  shows "\<exists>out. fst (getEncryptFn sec n g rng) buffer r = (Inr out, r)
           \<and> length out =
               (if version sec = 1 \<or> version sec = 2 then length buffer
                else 16 + ceil_div (length buffer + 1) 16 * 16)
    \<and> (version sec = 1 \<or> version sec = 2 \<or> version sec = 4 \<or> version sec = 5)"
proof (cases "version sec = 1 \<or> version sec = 2")
  case True
  then show ?thesis
    by (auto simp: getEncryptFn_rc4 [OF True] length_rc4)
next
  case False
  with PDFSecurity_key_shape [OF assms] have a: "version sec = 4 \<or> version sec = 5"
    by auto
  from encryptFn_aes_result [OF assms a, of buffer n g rng r] False a show ?thesis
    by (auto simp: ceil_div_16 length_tape_bytes)
qed

theorem encrypted_length_witness:
  "\<exists>out. fst (getEncryptFn (ex_security ''1.6'') 1 0 ex_tape) ex_buffer ex_tape
            = (Inr out, ex_tape)
         \<and> length out = 48"
proof -
  have v: "version_of (Some ''1.6'') \<noteq> 5" by (simp add: version_of_def)
  have w: "version (ex_security ''1.6'') = 4"
    using PDFSecurity_version [OF ex_security_ok [OF v]]
    by (simp add: ex_opts_def version_of_def)
  have c: "16 + ceil_div (length ex_buffer + 1) 16 * 16 = 48"
    by (simp add: ex_buffer_def ceil_div_def)
  show ?thesis
    using encrypted_length [OF ex_security_ok [OF v], of 1 0 ex_tape ex_buffer ex_tape] w c
    by auto
qed

section \<open>The initialisation vector\<close>

lemma encrypt_twice_aes:
  assumes "PDFSecurity saslprep doc opts rng0 = (Inr sec, rng1)"
    and "version sec = 4 \<or> version sec = 5"
  shows "\<exists>c1 c2.
      aesCbcEncrypt b1 (spec_aesKey sec n g) (tape_bytes rng 0 16) True = Inr c1
    \<and> aesCbcEncrypt b2 (spec_aesKey sec n g) (tape_bytes rng 0 16) True = Inr c2
    \<and> encrypt_twice sec n g b1 b2 rng =
        ((Inr (tape_bytes rng 0 16 @ c1), Inr (tape_bytes rng 0 16 @ c2)), tape_after 16 rng)"
proof -
  let ?r = "tape_after 16 rng"
  from encryptFn_aes_result [OF assms, of b1 n g rng ?r]
  obtain c1 where c1: "aesCbcEncrypt b1 (spec_aesKey sec n g) (tape_bytes rng 0 16) True = Inr c1"
    and f1: "fst (getEncryptFn sec n g rng) b1 ?r = (Inr (tape_bytes rng 0 16 @ c1), ?r)"
    and s: "snd (getEncryptFn sec n g rng) = ?r"
    by blast
  from encryptFn_aes_result [OF assms, of b2 n g rng ?r]
  obtain c2 where c2: "aesCbcEncrypt b2 (spec_aesKey sec n g) (tape_bytes rng 0 16) True = Inr c2"
    and f2: "fst (getEncryptFn sec n g rng) b2 ?r = (Inr (tape_bytes rng 0 16 @ c2), ?r)"
    by blast
  obtain f where f: "getEncryptFn sec n g rng = (f, ?r)"
    using s by (cases "getEncryptFn sec n g rng") simp
  have "encrypt_twice sec n g b1 b2 rng =
        ((Inr (tape_bytes rng 0 16 @ c1), Inr (tape_bytes rng 0 16 @ c2)), ?r)"
    using f1 f2 by (simp add: encrypt_twice_def f)
  with c1 c2 show ?thesis by blast
qed

text \<open>
  Claim C5, as stated, fails: the IV is generated in \<^verbatim>\<open>getEncryptFn\<close>, outside the
  function it returns. For the version 4 handler of the example configuration, object 1,
  and a generator whose bytes 0 to 15 differ from its bytes 16 to 31, two invocations of
  the returned function on the same plaintext both start with bytes 0 to 15 of the
  generator: the same IV.
\<close>

theorem same_iv_for_both_invocations_counterexample:
  "map_sum id (take 16)
     (fst (fst (encrypt_twice (ex_security ''1.6'') 1 0 ex_buffer ex_buffer ex_tape)))
     = Inr (tape_bytes ex_tape 0 16)
   \<and> map_sum id (take 16)
     (snd (fst (encrypt_twice (ex_security ''1.6'') 1 0 ex_buffer ex_buffer ex_tape)))
     = Inr (tape_bytes ex_tape 0 16)
   \<and> tape_bytes ex_tape 16 32 \<noteq> tape_bytes ex_tape 0 16"
proof -
  have v: "version_of (Some ''1.6'') \<noteq> 5" by (simp add: version_of_def)
  have w: "version (ex_security ''1.6'') = 4 \<or> version (ex_security ''1.6'') = 5"
    using PDFSecurity_version [OF ex_security_ok [OF v]]
    by (simp add: ex_opts_def version_of_def)
  from encrypt_twice_aes [OF ex_security_ok [OF v] w, of ex_buffer 1 0 ex_tape ex_buffer]
  obtain c1 c2 where "encrypt_twice (ex_security ''1.6'') 1 0 ex_buffer ex_buffer ex_tape =
        ((Inr (tape_bytes ex_tape 0 16 @ c1), Inr (tape_bytes ex_tape 0 16 @ c2)),
         tape_after 16 ex_tape)"
    by blast
  moreover have "tape_bytes ex_tape 16 32 \<noteq> tape_bytes ex_tape 0 16"
    by (simp add: tape_bytes_def ex_tape_def upt_rec [of 0] upt_rec [of 16])
  ultimately show ?thesis
    by (simp add: length_tape_bytes)
qed

text \<open>
  Claim C5, amended. For versions 4 and 5, every call of \<^verbatim>\<open>getEncryptFn\<close> draws one fresh
  16-byte IV, the next 16 bytes of the generator. Every invocation of the function it
  returns draws nothing more and returns that IV followed by the AES-CBC encryption, with
  PKCS#7 padding, of its input under the per-object key (version 4) or the file key
  (version 5): two invocations of the same returned function start with the same IV.
\<close>

theorem iv_drawn_once_per_getEncryptFn:
  assumes "PDFSecurity saslprep doc opts rng0 = (Inr sec, rng1)"
    and "version sec = 4 \<or> version sec = 5"
  shows "\<exists>c1 c2.
      aesCbcEncrypt b1 (spec_aesKey sec n g) (tape_bytes rng 0 16) True = Inr c1
    \<and> aesCbcEncrypt b2 (spec_aesKey sec n g) (tape_bytes rng 0 16) True = Inr c2
    \<and> fst (getEncryptFn sec n g rng) b1 r = (Inr (tape_bytes rng 0 16 @ c1), r)
    \<and> snd (getEncryptFn sec n g rng) = tape_after 16 rng
    \<and> encrypt_twice sec n g b1 b2 rng =
        ((Inr (tape_bytes rng 0 16 @ c1), Inr (tape_bytes rng 0 16 @ c2)), tape_after 16 rng)
    \<and> length (tape_bytes rng 0 16) = 16"
proof -
  from encrypt_twice_aes [OF assms, of b1 n g rng b2]
  obtain c1 c2 where
    c: "aesCbcEncrypt b1 (spec_aesKey sec n g) (tape_bytes rng 0 16) True = Inr c1"
       "aesCbcEncrypt b2 (spec_aesKey sec n g) (tape_bytes rng 0 16) True = Inr c2"
       "encrypt_twice sec n g b1 b2 rng =
        ((Inr (tape_bytes rng 0 16 @ c1), Inr (tape_bytes rng 0 16 @ c2)), tape_after 16 rng)"
    by blast
  from encryptFn_aes_result [OF assms, of b1 n g rng r] c(1)
  have "fst (getEncryptFn sec n g rng) b1 r = (Inr (tape_bytes rng 0 16 @ c1), r)"
    and "snd (getEncryptFn sec n g rng) = tape_after 16 rng"
    by auto
  with c show ?thesis
    by (auto simp: length_tape_bytes)
qed

theorem iv_drawn_once_per_getEncryptFn_witness:
  "\<exists>c1 c2.
      aesCbcEncrypt ex_buffer (encryptionKey (ex_security ''1.7ext3''))
        (tape_bytes ex_tape 0 16) True = Inr c1
    \<and> encrypt_twice (ex_security ''1.7ext3'') 1 0 ex_buffer [] ex_tape =
        ((Inr (tape_bytes ex_tape 0 16 @ c1), Inr (tape_bytes ex_tape 0 16 @ c2)),
         tape_after 16 ex_tape)"
proof -
  have w: "version (ex_security ''1.7ext3'') = 5"
    using PDFSecurity_version [OF ex_security_ok_v5]
    by (simp add: ex_opts_def version_of_def)
  then have w': "version (ex_security ''1.7ext3'') = 4 \<or> version (ex_security ''1.7ext3'') = 5"
    by simp
  show ?thesis
    using iv_drawn_once_per_getEncryptFn [OF ex_security_ok_v5 w', of ex_buffer 1 0 ex_tape "[]"
        ex_tape] w
    by (auto simp: spec_aesKey_def)
qed

section \<open>The encryption dictionary of version 5\<close>

lemma version_of_5: "version_of pv = 5 \<longleftrightarrow> pv = Some ''1.7ext3''"
  by (simp add: version_of_def)

text \<open>
  Claim C7. Under \<^verbatim>\<open>pdfVersion\<close> 1.7ext3, for every configuration the constructor
  accepts: U and O are each 48 bytes, a 32-byte SHA-256 digest followed by an 8-byte
  validation salt and an 8-byte key salt; UE and OE are each 32 bytes; Perms is 16 bytes,
  the AES-256-ECB encryption under the file key of the 16-byte block made of the
  permissions, least significant byte first, four bytes \<^verbatim>\<open>0xff\<close>, the bytes
  \<^verbatim>\<open>54 61 64 62\<close> and four random bytes. The file key is 32 random bytes.
\<close>

theorem v5_dictionary_entries:
  assumes "PDFSecurity saslprep doc opts rng = (Inr sec, rng')"
    and "pdfVersion opts = Some ''1.7ext3''"
  shows "\<exists>pwU pwO ue oe perms.
      U (dictionary sec) =
        sha256Hash (pwU @ tape_bytes rng 32 40) @ tape_bytes rng 32 40 @ tape_bytes rng 40 48
    \<and> O_entry (dictionary sec) =
        sha256Hash (pwO @ tape_bytes rng 48 56 @ U (dictionary sec))
          @ tape_bytes rng 48 56 @ tape_bytes rng 56 64
    \<and> length (sha256Hash (pwU @ tape_bytes rng 32 40)) = 32
    \<and> length (sha256Hash (pwO @ tape_bytes rng 48 56 @ U (dictionary sec))) = 32
    \<and> length (tape_bytes rng 32 40) = 8 \<and> length (tape_bytes rng 40 48) = 8
    \<and> length (tape_bytes rng 48 56) = 8 \<and> length (tape_bytes rng 56 64) = 8
    \<and> length (U (dictionary sec)) = 48
    \<and> length (O_entry (dictionary sec)) = 48
    \<and> UE (dictionary sec) = Some ue \<and> length ue = 32
    \<and> OE (dictionary sec) = Some oe \<and> length oe = 32
    \<and> Perms (dictionary sec) = Some perms \<and> length perms = 16
    \<and> aesEcbEncrypt
          (spec_permsBlock (word_of_int (P (dictionary sec))) (tape_bytes rng 64 68))
          (encryptionKey sec) = Inr perms
    \<and> length (spec_permsBlock (word_of_int (P (dictionary sec))) (tape_bytes rng 64 68)) = 16
    \<and> encryptionKey sec = tape_bytes rng 0 32
    \<and> length (encryptionKey sec) = 32
    \<and> version sec = 5"
proof -
  have v: "version_of (pdfVersion opts) = 5"
    using assms(2) by (simp add: version_of_5)
  from PDFSecurity_R5_inv [OF assms(1) v]
  obtain pwU pwO ue oe perms where
    u: "U (dictionary sec) =
         sha256Hash (pwU @ tape_bytes rng 32 40) @ tape_bytes rng 32 40 @ tape_bytes rng 40 48"
    and o: "O_entry (dictionary sec) =
         sha256Hash (pwO @ tape_bytes rng 48 56 @ U (dictionary sec))
           @ tape_bytes rng 48 56 @ tape_bytes rng 56 64"
    and k: "encryptionKey sec = tape_bytes rng 0 32" "version sec = 5"
    and ue: "UE (dictionary sec) = Some ue"
      "aesCbcEncrypt (encryptionKey sec) (sha256Hash (pwU @ tape_bytes rng 40 48))
         (replicate 16 0) False = Inr ue"
    and oe: "OE (dictionary sec) = Some oe"
      "aesCbcEncrypt (encryptionKey sec)
         (sha256Hash (pwO @ tape_bytes rng 56 64 @ U (dictionary sec)))
         (replicate 16 0) False = Inr oe"
    and p: "Perms (dictionary sec) = Some perms"
      "aesEcbEncrypt (le32 (getPermissionsR3 (permissions opts)) @ [0xff, 0xff, 0xff, 0xff]
                       @ [0x54, 0x61, 0x64, 0x62] @ tape_bytes rng 64 68)
         (encryptionKey sec) = Inr perms"
      "P (dictionary sec) = sint (getPermissionsR3 (permissions opts))"
    by blast
  have lk: "length (encryptionKey sec) = 32"
    using k by (simp add: length_tape_bytes)
  then have vk: "valid_key_size (encryptionKey sec)"
    by (simp add: valid_key_size_def)
  have lue: "length ue = 32"
    using aesCbcEncrypt_unpadded [OF valid_key_size_sha256, of "replicate 16 0"
        "encryptionKey sec" "pwU @ tape_bytes rng 40 48"] ue(2) lk by simp
  have loe: "length oe = 32"
    using aesCbcEncrypt_unpadded [OF valid_key_size_sha256, of "replicate 16 0"
        "encryptionKey sec" "pwO @ tape_bytes rng 56 64 @ U (dictionary sec)"] oe(2) lk by simp
  have b: "spec_permsBlock (word_of_int (P (dictionary sec))) (tape_bytes rng 64 68) =
      le32 (getPermissionsR3 (permissions opts)) @ [0xff, 0xff, 0xff, 0xff]
        @ [0x54, 0x61, 0x64, 0x62] @ tape_bytes rng 64 68"
    using p(3) by (simp add: spec_permsBlock_def)
  have lb: "length (spec_permsBlock (word_of_int (P (dictionary sec))) (tape_bytes rng 64 68)) = 16"
    by (simp add: spec_permsBlock_def length_le32 length_tape_bytes)
  have lp: "length perms = 16"
    using aesEcbEncrypt_length [OF vk, of "spec_permsBlock (word_of_int (P (dictionary sec)))
        (tape_bytes rng 64 68)"] p(2) lb b by simp
  have lu: "length (U (dictionary sec)) = 48"
    by (simp add: u length_sha256Hash length_tape_bytes)
  have lo: "length (O_entry (dictionary sec)) = 48"
    by (subst o) (simp add: length_sha256Hash length_tape_bytes)
  show ?thesis
    using u o k ue(1) oe(1) p(1,2) lk lue loe lb lp lu lo b
    by (intro exI [of _ pwU] exI [of _ pwO] exI [of _ ue] exI [of _ oe] exI [of _ perms])
      (simp add: length_sha256Hash length_tape_bytes)
qed

theorem v5_dictionary_entries_witness:
  "length (U (dictionary (ex_security ''1.7ext3''))) = 48
   \<and> length (O_entry (dictionary (ex_security ''1.7ext3''))) = 48
   \<and> (\<exists>ue oe perms.
         UE (dictionary (ex_security ''1.7ext3'')) = Some ue \<and> length ue = 32
       \<and> OE (dictionary (ex_security ''1.7ext3'')) = Some oe \<and> length oe = 32
       \<and> Perms (dictionary (ex_security ''1.7ext3'')) = Some perms \<and> length perms = 16)
   \<and> encryptionKey (ex_security ''1.7ext3'') = tape_bytes ex_tape 0 32"
proof -
  have p: "pdfVersion (ex_opts ''1.7ext3'') = Some ''1.7ext3''"
    by (simp add: ex_opts_def)
  from v5_dictionary_entries [OF ex_security_ok_v5 p] show ?thesis
    by blast
qed

section \<open>The file identifier\<close>

lemma info_loop_concat:
  "info_loop info acc =
     acc @ concat (map (\<lambda>kv. fst kv @ js '': '' @ valueOf_string (snd kv) @ [0x0a]) info)"
  by (induction info arbitrary: acc) auto

lemma length_md5Hash_string: "length (md5Hash_string s) = 16"
  by (simp add: md5Hash_string_def length_md5)

text \<open>
  Claim C9. For every info object whose \<^verbatim>\<open>CreationDate\<close> is a date,
  \<^verbatim>\<open>generateFileID\<close> returns exactly 16 bytes: the MD5 digest of the creation date's
  milliseconds followed by a newline and, for each key of the info object in order, the
  key, a colon and a space, the value as a string, and a newline. The result is a function
  of the info object alone: \<^verbatim>\<open>generateFileID\<close> takes neither the options (so no
  \<^verbatim>\<open>pdfVersion\<close>) nor the random generator.
\<close>

theorem file_id_is_md5_of_info:
  assumes "map_of info (js ''CreationDate'') = Some (IDate ms)"
  shows "generateFileID info = Inr (md5Hash_string (spec_infoString ms info))
    \<and> length (md5Hash_string (spec_infoString ms info)) = 16"
  using assms
  by (simp add: generateFileID_def info_loop_concat spec_infoString_def length_md5Hash_string)

theorem file_id_is_md5_of_info_witness:
  "generateFileID ex_info =
     Inr (md5Hash_string
            (js ''1704067200000'' @ [0x0a] @ js ''CreationDate: 1704067200000'' @ [0x0a]
               @ js ''Title: Test'' @ [0x0a]))
   \<and> length (md5Hash_string (spec_infoString 1704067200000 ex_info)) = 16"
proof -
  have c: "map_of ex_info (js ''CreationDate'') = Some (IDate 1704067200000)"
    by (simp add: ex_info_def js_def)
  have d: "decimal 1704067200000 = js ''1704067200000''"
    by (simp add: decimal_def js_def decimal_nat.simps)
  have s: "spec_infoString 1704067200000 ex_info =
      js ''1704067200000'' @ [0x0a] @ js ''CreationDate: 1704067200000'' @ [0x0a]
        @ js ''Title: Test'' @ [0x0a]"
    by (simp add: spec_infoString_def ex_info_def d) (simp add: js_def)
  show ?thesis
    using file_id_is_md5_of_info [OF c] by (simp add: s)
qed

section \<open>A missing owner password\<close>

lemma PDFSecurity_owner_defaults_to_user:
  assumes "\<not> truthy_password (ownerPassword opts)" "truthy_password (userPassword opts)"
  shows "PDFSecurity saslprep doc (opts\<lparr>ownerPassword := userPassword opts\<rparr>) rng
           = PDFSecurity saslprep doc opts rng"
  using assms
  by (simp add: PDFSecurity_def setupEncryption_def setupEncryptionV1V2V4_def
      setupEncryptionV5_def Let_def split: sum.splits)

lemma PDFSecurity_needs_password:
  assumes "PDFSecurity saslprep doc opts rng = (Inr sec, rng')"
  shows "truthy_password (ownerPassword opts) \<or> truthy_password (userPassword opts)"
  using assms by (auto simp: PDFSecurity_def split: if_splits)

text \<open>
  Claim C10. When no owner password is given (it is absent or empty) the handler uses
  the user password in its place: the constructor returns the very handler, and leaves the
  random generator in the very state, that it returns with the owner password set to the
  user password. For revisions 2 to 4 the O entry is the specification's owner entry
  computed with the padded user password as the owner's; for revision 5 the O and OE
  entries are computed from the processed user password.
\<close>

theorem user_password_stands_for_owner:
  assumes "PDFSecurity saslprep doc opts rng = (Inr sec, rng')"
    and "\<not> truthy_password (ownerPassword opts)"
  shows "PDFSecurity saslprep doc (opts\<lparr>ownerPassword := userPassword opts\<rparr>) rng
           = (Inr sec, rng')
    \<and> (if version sec = 5 then
          \<exists>pw oe. processPasswordR5 saslprep (userPassword opts) = Inr pw
            \<and> O_entry (dictionary sec) =
                 sha256Hash (pw @ tape_bytes rng 48 56 @ U (dictionary sec))
                   @ tape_bytes rng 48 56 @ tape_bytes rng 56 64
            \<and> OE (dictionary sec) = Some oe
            \<and> aesCbcEncrypt (encryptionKey sec)
                 (sha256Hash (pw @ tape_bytes rng 56 64 @ U (dictionary sec)))
                 (replicate 16 0) False = Inr oe
        else
          O_entry (dictionary sec) =
            spec_ownerEntry (R (dictionary sec)) (keyBits sec)
              (spec_padded (default_password (userPassword opts)))
              (spec_padded (default_password (userPassword opts))))"
proof -
  have u: "truthy_password (userPassword opts)"
    using PDFSecurity_needs_password [OF assms(1)] assms(2) by simp
  have eq: "PDFSecurity saslprep doc (opts\<lparr>ownerPassword := userPassword opts\<rparr>) rng
           = (Inr sec, rng')"
    using PDFSecurity_owner_defaults_to_user [OF assms(2) u] assms(1) by simp
  show ?thesis
  proof (cases "version sec = 5")
    case True
    then have v: "version_of (pdfVersion opts) = 5"
      using PDFSecurity_version [OF assms(1)] by simp
    from PDFSecurity_R5_inv [OF assms(1) v] assms(2) True eq show ?thesis
      by auto
  next
    case False
    then have v: "version_of (pdfVersion opts) \<noteq> 5"
      using PDFSecurity_version [OF assms(1)] by simp
    note inv = PDFSecurity_R234_inv [OF assms(1) v]
    have kb: "keyBits sec div 8 \<le> 16"
      using inv(3) by (simp split: if_splits)
    have "owner_or_user opts = default_password (userPassword opts)"
      using assms(2) by (simp add: owner_or_user_def)
    with inv(7) False eq show ?thesis
      by (simp add: getOwnerPasswordR2R3R4_spec [OF kb])
  qed
qed

theorem user_password_stands_for_owner_witness:
  "PDFSecurity Inr ex_doc ((ex_opts ''1.4'')\<lparr>ownerPassword := Some (js ''test'')\<rparr>) ex_tape
     = (Inr (ex_security ''1.4''), ex_tape)
   \<and> PDFSecurity Inr ex_doc (ex_opts ''1.4'') ex_tape = (Inr (ex_security ''1.4''), ex_tape)
   \<and> O_entry (dictionary (ex_security ''1.4'')) =
        spec_ownerEntry 3 128 (spec_padded (js ''test'')) (spec_padded (js ''test''))"
proof -
  have v: "version_of (Some ''1.4'') \<noteq> 5" by (simp add: version_of_def)
  have n: "\<not> truthy_password (ownerPassword (ex_opts ''1.4''))"
    by (simp add: ex_opts_def)
  have w: "version (ex_security ''1.4'') = 2"
    using PDFSecurity_version [OF ex_security_ok [OF v]]
    by (simp add: ex_opts_def version_of_def)
  have v': "version_of (pdfVersion (ex_opts ''1.4'')) \<noteq> 5"
    by (simp add: ex_opts_def version_of_def)
  have r: "R (dictionary (ex_security ''1.4'')) = 3" "keyBits (ex_security ''1.4'') = 128"
    using PDFSecurity_R234_inv(3,4) [OF ex_security_ok [OF v] v'] w by simp_all
  have u: "userPassword (ex_opts ''1.4'') = Some (js ''test'')"
    by (simp add: ex_opts_def)
  show ?thesis
    using user_password_stands_for_owner [OF ex_security_ok [OF v] n] ex_security_ok [OF v] w r
    by (simp add: u default_password_def)
qed

end
